theory Spec2Isabelle
  imports Complex_Main "HOL-Library.Log_Nat"
begin

section \<open>The ledger store of budgie (src/budgie/db.py)\<close>

text \<open>
  The five tables of db.py are lists of rows, kept in the order the store hands them
  back (insertion order), so that \<open>first()\<close> is the first matching row. Every column
  that the code may leave empty is an \<open>option\<close>: the owner \<open>user_id\<close> is
  \<open>self.current_uid\<close>, which is \<open>None\<close> until \<open>set_current_user\<close> has run, and
  the two account references of an entry are whatever the lookup by name returned.
  Comparing a column with \<open>None\<close> in \<open>filter_by\<close> selects the rows where the column
  is empty, which is equality on \<open>option\<close>. Amounts are decimals (\<open>Numeric\<close>, read
  back as Python \<open>Decimal\<close>), modelled by their values, rationals of the form
  \<open>c * 10 powi k\<close>; the store keeps and sums them exactly, and arithmetic done in
  Python rounds to the precision of the decimal context (see \<open>get_account_balance\<close>).
  Primary keys are drawn from one counter per table (\<open>autoincrement\<close>).
\<close>

datatype date = Date nat nat nat

datatype error = AttributeError | IntegrityError

record user_row =
  u_id :: nat
  u_email :: string
  u_password :: string
  u_salt :: string
  u_name :: string
  u_created :: date

record account_row =
  a_id :: nat
  a_user_id :: "nat option"
  a_name :: string
  a_description :: string
  a_type :: string

record entry_tag_row =
  et_id :: nat
  et_user_id :: "nat option"
  et_entry_id :: "nat option"
  et_tag_id :: "nat option"

record tag_row =
  t_id :: nat
  t_user_id :: "nat option"
  t_tag :: string

record entry_row =
  e_id :: nat
  e_user_id :: "nat option"
  e_who :: string
  e_when :: date
  e_credit_account_id :: "nat option"
  e_debit_account_id :: "nat option"
  e_amount :: rat
  e_description :: string

record store =
  users :: "user_row list"
  accounts :: "account_row list"
  tags :: "tag_row list"
  entries :: "entry_row list"
  entry_tags :: "entry_tag_row list"
  next_user_id :: nat
  next_account_id :: nat
  next_tag_id :: nat
  next_entry_id :: nat
  next_entry_tag_id :: nat
  current_uid :: "nat option"

text \<open>The records the operations take (the dictionaries \<open>user\<close>, \<open>account\<close>, \<open>entry\<close>).
  The key \<open>tags\<close> of an entry may be absent (\<open>entry.get("tags", None)\<close>).\<close>

record user_in =
  ui_name :: string
  ui_email :: string
  ui_password :: string
  ui_salt :: string
  ui_created :: date

record account_in =
  ai_name :: string
  ai_description :: string
  ai_type :: string

record entry_in =
  ei_who :: string
  ei_when :: date
  ei_debit_account :: string
  ei_credit_account :: string
  ei_amount :: rat
  ei_description :: string
  ei_tags :: "string list option"

text \<open>
  Modelled from the spec: the module \<open>schemas\<close> (\<open>EntrySchema\<close>, \<open>AccountSchema\<close>) is
  not among the sources. The spec describes it as the record-shaping layer that
  translates between storage rows and the plain records the operations return, so
  \<open>load\<close> is taken to return the field set it is given, the date passed as text
  being read back as that date. \<open>listed_entry\<close> and \<open>listed_account\<close> are those
  field sets.
\<close>

record listed_entry =
  le_id :: nat
  le_when :: date
  le_description :: string
  le_credit_account :: string
  le_debit_account :: string
  le_amount :: rat
  le_who :: string
  le_tags :: "string list"

record listed_account =
  la_name :: string
  la_description :: string
  la_type :: string

subsection \<open>Database.__init__\<close>

text \<open>A store with no rows; no identity is established (\<open>self.current_uid = None\<close>).\<close>

definition init_store :: store where
  "init_store =
     \<lparr>users = [], accounts = [], tags = [], entries = [], entry_tags = [],
      next_user_id = 1, next_account_id = 1, next_tag_id = 1, next_entry_id = 1,
      next_entry_tag_id = 1, current_uid = None\<rparr>"

subsection \<open>set_current_user, create_user\<close>

text \<open>\<open>user = query(UserModel).filter_by(email=email).first()\<close> and then \<open>user.id\<close>:
  with no such user, \<open>user\<close> is \<open>None\<close> and the attribute access raises
  \<open>AttributeError\<close> before \<open>current_uid\<close> is assigned.\<close>

definition set_current_user :: "store \<Rightarrow> string \<Rightarrow> error + store" where
  "set_current_user s email =
     (case find (\<lambda>u. u_email u = email) (users s) of
        None \<Rightarrow> Inl AttributeError
      | Some user \<Rightarrow> Inr (s\<lparr>current_uid := Some (u_id user)\<rparr>))"

text \<open>The column \<open>email\<close> is \<open>unique\<close>: a second row with the same email is refused by
  the store, which SQLAlchemy raises as \<open>IntegrityError\<close>.\<close>

definition create_user :: "store \<Rightarrow> user_in \<Rightarrow> error + store" where
  "create_user s user =
     (if list_ex (\<lambda>u. u_email u = ui_email user) (users s) then Inl IntegrityError
      else Inr (s\<lparr>users := users s @
                       [\<lparr>u_id = next_user_id s, u_email = ui_email user,
                         u_password = ui_password user, u_salt = ui_salt user,
                         u_name = ui_name user, u_created = ui_created user\<rparr>],
                     next_user_id := Suc (next_user_id s)\<rparr>))"

subsection \<open>create_account, create_tag, list_accounts\<close>

text \<open>\<open>UniqueConstraint("name", "user_id")\<close>: the insert is refused when a row with the
  same name and the same owner exists. Rows whose owner is empty never collide (an
  empty column is distinct from every value in a uniqueness constraint).\<close>

definition account_unique_violation :: "store \<Rightarrow> nat option \<Rightarrow> string \<Rightarrow> bool" where
  "account_unique_violation s uid nm =
     (case uid of
        None \<Rightarrow> False
      | Some u \<Rightarrow> list_ex (\<lambda>a. a_name a = nm \<and> a_user_id a = Some u) (accounts s))"

definition create_account :: "store \<Rightarrow> account_in \<Rightarrow> error + store" where
  "create_account s account =
     (if account_unique_violation s (current_uid s) (ai_name account) then Inl IntegrityError
      else Inr (s\<lparr>accounts := accounts s @
                       [\<lparr>a_id = next_account_id s, a_user_id = current_uid s,
                         a_name = ai_name account, a_description = ai_description account,
                         a_type = ai_type account\<rparr>],
                     next_account_id := Suc (next_account_id s)\<rparr>))"

definition create_tag :: "store \<Rightarrow> string \<Rightarrow> error + store" where
  "create_tag s tag =
     Inr (s\<lparr>tags := tags s @ [\<lparr>t_id = next_tag_id s, t_user_id = current_uid s, t_tag = tag\<rparr>],
            next_tag_id := Suc (next_tag_id s)\<rparr>)"

text \<open>\<open>if type_:\<close> holds for a non-empty string only (\<open>ty_filter\<close> is the keyword \<open>type\<close>).\<close>

definition list_accounts :: "store \<Rightarrow> string option \<Rightarrow> error + listed_account list" where
  "list_accounts s ty_filter =
     Inr (map (\<lambda>a. \<lparr>la_name = a_name a, la_description = a_description a, la_type = a_type a\<rparr>)
            (filter (\<lambda>a. a_user_id a = current_uid s \<and>
                          (case ty_filter of None \<Rightarrow> True
                           | Some ty \<Rightarrow> if ty = [] then True else a_type a = ty))
               (accounts s)))"

subsection \<open>add_entry\<close>

text \<open>
  The loop over \<open>entry["tags"]\<close>. Each name is looked up with
  \<open>query(TagModel).filter(TagModel.tag == tag_name).first()\<close>, over the tags of every
  owner; when there is none, a new \<open>TagModel\<close> owned by \<open>current_uid\<close> is made. The
  source does not say whether a tag made earlier in the same call is already seen by a
  later lookup of the same call (that is the session's autoflush, which depends on the
  ORM's cascade settings), so it is the parameter \<open>fl\<close>. The result is the list of new
  tag rows and, for each name in order, the id of the tag its association links.
\<close>

fun get_or_create_tags ::
  "bool \<Rightarrow> nat option \<Rightarrow> tag_row list \<Rightarrow> tag_row list \<Rightarrow> nat \<Rightarrow> string list
     \<Rightarrow> tag_row list \<times> nat list" where
  "get_or_create_tags fl uid stored pending nxt [] = (pending, [])"
| "get_or_create_tags fl uid stored pending nxt (tag_name # rest) =
     (case find (\<lambda>t. t_tag t = tag_name) (if fl then stored @ pending else stored) of
        Some t \<Rightarrow>
          (case get_or_create_tags fl uid stored pending nxt rest of
             (p, ids) \<Rightarrow> (p, t_id t # ids))
      | None \<Rightarrow>
          (case get_or_create_tags fl uid stored
                  (pending @ [\<lparr>t_id = nxt, t_user_id = uid, t_tag = tag_name\<rparr>]) (Suc nxt) rest of
             (p, ids) \<Rightarrow> (p, nxt # ids)))"

text \<open>The accounts are looked up by name alone (\<open>filter_by(name=...)\<close>, no owner), and
  the result, a row or \<open>None\<close>, is assigned to the entry unchecked. Nothing in
  \<open>add_entry\<close> raises.\<close>

definition add_entry :: "bool \<Rightarrow> store \<Rightarrow> entry_in \<Rightarrow> error + store" where
  "add_entry fl s entry =
     (let debit_account = find (\<lambda>a. a_name a = ei_debit_account entry) (accounts s);
          credit_account = find (\<lambda>a. a_name a = ei_credit_account entry) (accounts s);
          entry_m = \<lparr>e_id = next_entry_id s, e_user_id = current_uid s,
                     e_who = ei_who entry, e_when = ei_when entry,
                     e_credit_account_id = map_option a_id credit_account,
                     e_debit_account_id = map_option a_id debit_account,
                     e_amount = ei_amount entry, e_description = ei_description entry\<rparr>;
          resolved =
            (case ei_tags entry of
               None \<Rightarrow> ([], [])
             | Some names \<Rightarrow>
                 if names = [] then ([], [])
                 else get_or_create_tags fl (current_uid s) (tags s) [] (next_tag_id s) names);
          new_tags = fst resolved;
          tag_ids = snd resolved;
          links = map (\<lambda>(k, tid). \<lparr>et_id = k, et_user_id = current_uid s,
                                    et_entry_id = Some (next_entry_id s), et_tag_id = Some tid\<rparr>)
                    (zip [next_entry_tag_id s ..< next_entry_tag_id s + length tag_ids] tag_ids)
      in Inr (s\<lparr>entries := entries s @ [entry_m],
                 tags := tags s @ new_tags,
                 entry_tags := entry_tags s @ links,
                 next_entry_id := Suc (next_entry_id s),
                 next_tag_id := next_tag_id s + length new_tags,
                 next_entry_tag_id := next_entry_tag_id s + length tag_ids\<rparr>))"

subsection \<open>delete_entry\<close>

text \<open>\<open>entry.tags\<close> are the association rows whose \<open>entry_id\<close> is the entry's id; each
  is deleted by its primary key, then the entry by its own. Tag rows are not touched.\<close>

definition delete_entry :: "store \<Rightarrow> nat \<Rightarrow> error + (store \<times> bool)" where
  "delete_entry s entry_id =
     (case find (\<lambda>e. e_user_id e = current_uid s \<and> e_id e = entry_id) (entries s) of
        None \<Rightarrow> Inr (s, False)
      | Some entry \<Rightarrow>
          (let doomed = map et_id (filter (\<lambda>et. et_entry_id et = Some (e_id entry)) (entry_tags s))
           in Inr (s\<lparr>entry_tags := filter (\<lambda>et. et_id et \<notin> set doomed) (entry_tags s),
                      entries := filter (\<lambda>e. e_id e \<noteq> e_id entry) (entries s)\<rparr>, True)))"

subsection \<open>list_entries\<close>

text \<open>\<open>EntryModel.debit_account.has(name=dr)\<close>: there is an account whose id is the
  entry's reference and whose name is \<open>dr\<close>.\<close>

definition account_has :: "store \<Rightarrow> nat option \<Rightarrow> string \<Rightarrow> bool" where
  "account_has s ref nm =
     (case ref of
        None \<Rightarrow> False
      | Some i \<Rightarrow> list_ex (\<lambda>a. a_id a = i \<and> a_name a = nm) (accounts s))"

text \<open>\<open>if dr:\<close> holds when a name is given and is not the empty string.\<close>

definition name_filter :: "store \<Rightarrow> string option \<Rightarrow> nat option \<Rightarrow> bool" where
  "name_filter s given ref =
     (case given of
        None \<Rightarrow> True
      | Some nm \<Rightarrow> if nm = [] then True else account_has s ref nm)"

text \<open>\<open>entry.credit_account.name\<close> follows the reference to the account row; on an empty
  or dangling reference the relationship is \<open>None\<close> and \<open>.name\<close> raises.\<close>

definition account_name_of :: "store \<Rightarrow> nat option \<Rightarrow> error + string" where
  "account_name_of s ref =
     (case ref of
        None \<Rightarrow> Inl AttributeError
      | Some i \<Rightarrow>
          (case find (\<lambda>a. a_id a = i) (accounts s) of
             None \<Rightarrow> Inl AttributeError
           | Some a \<Rightarrow> Inr (a_name a)))"

text \<open>\<open>[entry_tag.tag.tag for entry_tag in entry.tags]\<close>\<close>

fun tag_texts :: "store \<Rightarrow> entry_tag_row list \<Rightarrow> error + string list" where
  "tag_texts s [] = Inr []"
| "tag_texts s (entry_tag # rest) =
     (case et_tag_id entry_tag of
        None \<Rightarrow> Inl AttributeError
      | Some i \<Rightarrow>
          (case find (\<lambda>t. t_id t = i) (tags s) of
             None \<Rightarrow> Inl AttributeError
           | Some t \<Rightarrow>
               (case tag_texts s rest of
                  Inl err \<Rightarrow> Inl err
                | Inr texts \<Rightarrow> Inr (t_tag t # texts))))"

definition entry_record :: "store \<Rightarrow> entry_row \<Rightarrow> error + listed_entry" where
  "entry_record s entry =
     (case account_name_of s (e_credit_account_id entry) of
        Inl err \<Rightarrow> Inl err
      | Inr cr_name \<Rightarrow>
          (case account_name_of s (e_debit_account_id entry) of
             Inl err \<Rightarrow> Inl err
           | Inr dr_name \<Rightarrow>
               (case tag_texts s (filter (\<lambda>et. et_entry_id et = Some (e_id entry)) (entry_tags s)) of
                  Inl err \<Rightarrow> Inl err
                | Inr texts \<Rightarrow>
                    Inr \<lparr>le_id = e_id entry, le_when = e_when entry,
                         le_description = e_description entry,
                         le_credit_account = cr_name, le_debit_account = dr_name,
                         le_amount = e_amount entry, le_who = e_who entry,
                         le_tags = texts\<rparr>)))"

text \<open>The loop \<open>for entry in entries: entry_list.append(...)\<close>; the first row that
  raises ends the call.\<close>

fun entry_records :: "store \<Rightarrow> entry_row list \<Rightarrow> error + listed_entry list" where
  "entry_records s [] = Inr []"
| "entry_records s (entry # rest) =
     (case entry_record s entry of
        Inl err \<Rightarrow> Inl err
      | Inr r \<Rightarrow>
          (case entry_records s rest of
             Inl err \<Rightarrow> Inl err
           | Inr rs \<Rightarrow> Inr (r # rs)))"

definition selected_entries :: "store \<Rightarrow> string option \<Rightarrow> string option \<Rightarrow> entry_row list" where
  "selected_entries s dr cr =
     filter (\<lambda>e. e_user_id e = current_uid s \<and>
                  name_filter s dr (e_debit_account_id e) \<and>
                  name_filter s cr (e_credit_account_id e))
       (entries s)"

definition list_entries :: "store \<Rightarrow> string option \<Rightarrow> string option \<Rightarrow> error + listed_entry list" where
  "list_entries s dr cr = entry_records s (selected_entries s dr cr)"

subsection \<open>get_account_balance\<close>

text \<open>\<open>func.sum(...)\<close>\<open>.scalar()\<close> is \<open>None\<close> over no rows; \<open>0 if not x else x\<close> replaces
  \<open>None\<close> and a zero sum by \<open>0\<close>.\<close>

definition sql_sum :: "rat list \<Rightarrow> rat option" where
  "sql_sum xs = (if xs = [] then None else Some (sum_list xs))"

definition zero_if_not :: "rat option \<Rightarrow> rat" where
  "zero_if_not x = (case x of None \<Rightarrow> 0 | Some v \<Rightarrow> if v = 0 then 0 else v)"

text \<open>
  \<open>sum_dr - sum_cr\<close> is a subtraction of Python \<open>Decimal\<close>s (or of the integer
  \<open>0\<close> and a \<open>Decimal\<close>), done in the default decimal context: the exact
  difference is rounded to 28 significant digits, ties to the even digit
  (\<open>prec = 28\<close>, \<open>ROUND_HALF_EVEN\<close>). \<open>adjusted x\<close> is the exponent of the leading
  digit of \<open>x\<close> (\<open>Decimal.adjusted()\<close>), so the last digit kept has exponent
  \<open>adjusted x - 27\<close>. It is computed from the number of digits of the integer part
  of \<open>\<bar>x\<bar>\<close>, or of its reciprocal when \<open>\<bar>x\<bar> < 1\<close>; lemmas \<open>adjusted_le\<close> and
  \<open>adjusted_less\<close> show \<open>10 powi adjusted x \<le> \<bar>x\<bar>\<close> and
  \<open>\<bar>x\<bar> < 10 powi (adjusted x + 1)\<close>. The exponent range of the context (up to
  \<open>999999\<close>) is beyond what a numeric column holds and is not modelled.
\<close>

definition round_half_even :: "rat \<Rightarrow> int" where
  "round_half_even y =
     (let f = \<lfloor>y\<rfloor>; r = y - of_int f
      in if r < 1 / 2 then f else if 1 / 2 < r then f + 1 else if even f then f else f + 1)"

definition adjusted :: "rat \<Rightarrow> int" where
  "adjusted x =
     (if 1 \<le> \<bar>x\<bar> then int (floorlog 10 (nat \<lfloor>\<bar>x\<bar>\<rfloor>)) - 1
      else - int (floorlog 10 (nat (\<lceil>1 / \<bar>x\<bar>\<rceil> - 1))))"

definition decimal_round :: "rat \<Rightarrow> rat" where
  "decimal_round x =
     (if x = 0 then 0
      else let e = adjusted x - 27
           in of_int (round_half_even (x / 10 powi e)) * 10 powi e)"

definition get_account_balance :: "store \<Rightarrow> string \<Rightarrow> error + rat" where
  "get_account_balance s account =
     (let sum_cr = sql_sum (map e_amount
                     (filter (\<lambda>e. e_user_id e = current_uid s \<and>
                                   account_has s (e_credit_account_id e) account) (entries s)));
          sum_dr = sql_sum (map e_amount
                     (filter (\<lambda>e. e_user_id e = current_uid s \<and>
                                   account_has s (e_debit_account_id e) account) (entries s)));
          sum_dr = zero_if_not sum_dr;
          sum_cr = zero_if_not sum_cr
      in Inr (decimal_round (sum_dr - sum_cr)))"

subsection \<open>Well-formed stores\<close>

text \<open>What the store itself guarantees: primary keys are unique and were drawn from the
  table's counter, and an association row refers to an entry id that has been issued.
  Every operation keeps it (lemmas \<open>wf_*\<close> below).\<close>

definition ref_below :: "nat option \<Rightarrow> nat \<Rightarrow> bool" where
  "ref_below ref n = (case ref of None \<Rightarrow> True | Some i \<Rightarrow> i < n)"

definition wf_store :: "store \<Rightarrow> bool" where
  "wf_store s \<longleftrightarrow>
     distinct (map u_id (users s)) \<and> list_all (\<lambda>u. u_id u < next_user_id s) (users s) \<and>
     distinct (map a_id (accounts s)) \<and> list_all (\<lambda>a. a_id a < next_account_id s) (accounts s) \<and>
     distinct (map t_id (tags s)) \<and> list_all (\<lambda>t. t_id t < next_tag_id s) (tags s) \<and>
     distinct (map e_id (entries s)) \<and> list_all (\<lambda>e. e_id e < next_entry_id s) (entries s) \<and>
     distinct (map et_id (entry_tags s)) \<and>
     list_all (\<lambda>et. et_id et < next_entry_tag_id s \<and>
                      ref_below (et_entry_id et) (next_entry_id s))
       (entry_tags s)"


subsection \<open>Example stores\<close>

text \<open>Two users, alice (id 1) and bob (id 2); alice owns the accounts "cash" and
  "salary" and the tag "groceries". In \<open>alice_ledger\<close> alice is the current user, in
  \<open>bob_session\<close> bob is.\<close>

definition alice_row :: user_row where
  "alice_row = \<lparr>u_id = 1, u_email = ''alice@example.com'', u_password = ''h1'', u_salt = ''s1'',
                 u_name = ''alice'', u_created = Date 2024 1 1\<rparr>"

definition bob_row :: user_row where
  "bob_row = \<lparr>u_id = 2, u_email = ''bob@example.com'', u_password = ''h2'', u_salt = ''s2'',
               u_name = ''bob'', u_created = Date 2024 1 1\<rparr>"

definition cash_row :: account_row where
  "cash_row = \<lparr>a_id = 1, a_user_id = Some 1, a_name = ''cash'', a_description = ''wallet'',
                a_type = ''asset''\<rparr>"

definition salary_row :: account_row where
  "salary_row = \<lparr>a_id = 2, a_user_id = Some 1, a_name = ''salary'', a_description = ''job'',
                  a_type = ''income''\<rparr>"

definition groceries_row :: tag_row where
  "groceries_row = \<lparr>t_id = 1, t_user_id = Some 1, t_tag = ''groceries''\<rparr>"

definition alice_ledger :: store where
  "alice_ledger =
     \<lparr>users = [alice_row, bob_row], accounts = [cash_row, salary_row], tags = [groceries_row],
      entries = [], entry_tags = [],
      next_user_id = 3, next_account_id = 3, next_tag_id = 2, next_entry_id = 1,
      next_entry_tag_id = 1, current_uid = Some 1\<rparr>"

definition bob_session :: store where
  "bob_session = alice_ledger\<lparr>current_uid := Some 2\<rparr>"

definition cash_in :: account_in where
  "cash_in = \<lparr>ai_name = ''cash'', ai_description = ''wallet'', ai_type = ''asset''\<rparr>"

definition paycheck :: entry_in where
  "paycheck = \<lparr>ei_who = ''bob'', ei_when = Date 2024 1 1, ei_debit_account = ''cash'',
                ei_credit_account = ''salary'', ei_amount = 1000, ei_description = ''paycheck'',
                ei_tags = None\<rparr>"

text \<open>The entries used below: the paycheck of the specification's example (debit
  "cash", credit "salary", 1000, no tags), a correction in the other direction that
  carries two tags, and a transfer from "cash" to "cash". \<open>alice_paid\<close> is
  \<open>alice_ledger\<close> after the first two.\<close>

definition correction :: entry_in where
  "correction = \<lparr>ei_who = ''alice'', ei_when = Date 2024 1 5, ei_debit_account = ''salary'',
                  ei_credit_account = ''cash'', ei_amount = 200, ei_description = ''correction'',
                  ei_tags = Some [''groceries'', ''misc'']\<rparr>"

definition self_transfer :: entry_in where
  "self_transfer = \<lparr>ei_who = ''alice'', ei_when = Date 2024 1 9, ei_debit_account = ''cash'',
                     ei_credit_account = ''cash'', ei_amount = 50, ei_description = ''move'',
                     ei_tags = None\<rparr>"

definition paycheck_row :: entry_row where
  "paycheck_row = \<lparr>e_id = 1, e_user_id = Some 1, e_who = ''bob'', e_when = Date 2024 1 1,
                    e_credit_account_id = Some 2, e_debit_account_id = Some 1,
                    e_amount = 1000, e_description = ''paycheck''\<rparr>"

definition correction_row :: entry_row where
  "correction_row = \<lparr>e_id = 2, e_user_id = Some 1, e_who = ''alice'', e_when = Date 2024 1 5,
                      e_credit_account_id = Some 1, e_debit_account_id = Some 2,
                      e_amount = 200, e_description = ''correction''\<rparr>"

definition misc_row :: tag_row where
  "misc_row = \<lparr>t_id = 2, t_user_id = Some 1, t_tag = ''misc''\<rparr>"

definition alice_paid :: store where
  "alice_paid =
     \<lparr>users = [alice_row, bob_row], accounts = [cash_row, salary_row],
      tags = [groceries_row, misc_row],
      entries = [paycheck_row, correction_row],
      entry_tags = [\<lparr>et_id = 1, et_user_id = Some 1, et_entry_id = Some 2, et_tag_id = Some 1\<rparr>,
                    \<lparr>et_id = 2, et_user_id = Some 1, et_entry_id = Some 2, et_tag_id = Some 2\<rparr>],
      next_user_id = 3, next_account_id = 3, next_tag_id = 3, next_entry_id = 3,
      next_entry_tag_id = 3, current_uid = Some 1\<rparr>"

text \<open>bob with accounts of his own ("wallet", "food"), beside alice's rows; and the
  entries used for the defects below: one that names an account nobody has, and one of
  bob's that carries the tag text "groceries".\<close>

definition bob_ledger :: store where
  "bob_ledger =
     \<lparr>users = [alice_row, bob_row],
      accounts = [cash_row, salary_row,
                  \<lparr>a_id = 3, a_user_id = Some 2, a_name = ''wallet'', a_description = ''purse'',
                    a_type = ''asset''\<rparr>,
                  \<lparr>a_id = 4, a_user_id = Some 2, a_name = ''food'', a_description = ''meals'',
                    a_type = ''expense''\<rparr>],
      tags = [groceries_row], entries = [], entry_tags = [],
      next_user_id = 3, next_account_id = 5, next_tag_id = 2, next_entry_id = 1,
      next_entry_tag_id = 1, current_uid = Some 2\<rparr>"

definition rent_payment :: entry_in where
  "rent_payment = \<lparr>ei_who = ''alice'', ei_when = Date 2024 2 1, ei_debit_account = ''rent'',
                    ei_credit_account = ''cash'', ei_amount = 700, ei_description = ''february'',
                    ei_tags = Some [''misc'']\<rparr>"

definition bob_shopping :: entry_in where
  "bob_shopping = \<lparr>ei_who = ''bob'', ei_when = Date 2024 2 3, ei_debit_account = ''food'',
                    ei_credit_account = ''wallet'', ei_amount = 30, ei_description = ''market'',
                    ei_tags = Some [''groceries'']\<rparr>"

text \<open>An amount of 29 significant digits, and alice's ledger after one entry of that
  amount; bob with an account "cash" of his own beside alice's, and an entry of bob's
  that credits "cash".\<close>

definition windfall :: entry_in where
  "windfall = \<lparr>ei_who = ''alice'', ei_when = Date 2024 3 1, ei_debit_account = ''cash'',
                ei_credit_account = ''salary'', ei_amount = 10000000000000000000000000001,
                ei_description = ''windfall'', ei_tags = None\<rparr>"

definition alice_fortune :: store where
  "alice_fortune =
     \<lparr>users = [alice_row, bob_row], accounts = [cash_row, salary_row], tags = [groceries_row],
      entries = [\<lparr>e_id = 1, e_user_id = Some 1, e_who = ''alice'', e_when = Date 2024 3 1,
                  e_credit_account_id = Some 2, e_debit_account_id = Some 1,
                  e_amount = 10000000000000000000000000001, e_description = ''windfall''\<rparr>],
      entry_tags = [],
      next_user_id = 3, next_account_id = 3, next_tag_id = 2, next_entry_id = 2,
      next_entry_tag_id = 1, current_uid = Some 1\<rparr>"

definition bob_withdrawal :: entry_in where
  "bob_withdrawal = \<lparr>ei_who = ''bob'', ei_when = Date 2024 3 2, ei_debit_account = ''food'',
                      ei_credit_account = ''cash'', ei_amount = 5, ei_description = ''snack'',
                      ei_tags = None\<rparr>"

definition savings_row :: account_row where
  "savings_row = \<lparr>a_id = 3, a_user_id = Some 1, a_name = ''savings'', a_description = ''reserve'',
                   a_type = ''asset''\<rparr>"

definition alice_savings :: store where
  "alice_savings = alice_paid\<lparr>accounts := [cash_row, salary_row, savings_row],
                                next_account_id := 4\<rparr>"

section \<open>Auxiliary facts\<close>

lemma ref_below_simps [simp]:
  "ref_below None n" "ref_below (Some i) n \<longleftrightarrow> i < n"
  by (simp_all add: ref_below_def)

lemma ref_below_mono: "ref_below r n \<Longrightarrow> n \<le> m \<Longrightarrow> ref_below r m"
  by (cases r) auto

lemma find_by_key:
  "distinct (map f xs) \<Longrightarrow> x \<in> set xs \<Longrightarrow> find (\<lambda>y. f y = f x) xs = Some x"
  by (induction xs) (auto simp: image_iff)

lemma find_SomeD: "find P xs = Some x \<Longrightarrow> x \<in> set xs \<and> P x"
  by (induction xs) (auto split: if_splits)

lemma find_append:
  "find P (xs @ ys) = (case find P xs of None \<Rightarrow> find P ys | Some x \<Rightarrow> Some x)"
  by (induction xs) auto

lemma wf_init_store: "wf_store init_store"
  by (simp add: wf_store_def init_store_def)

lemma wf_set_current_user:
  "wf_store s \<Longrightarrow> set_current_user s email = Inr s' \<Longrightarrow> wf_store s'"
  by (cases "find (\<lambda>u. u_email u = email) (users s)")
     (auto simp: set_current_user_def wf_store_def)

lemma wf_create_user:
  "wf_store s \<Longrightarrow> create_user s user = Inr s' \<Longrightarrow> wf_store s'"
  by (fastforce simp: create_user_def wf_store_def list_all_iff less_Suc_eq split: if_splits)

lemma wf_create_account:
  "wf_store s \<Longrightarrow> create_account s account = Inr s' \<Longrightarrow> wf_store s'"
  by (fastforce simp: create_account_def wf_store_def list_all_iff less_Suc_eq split: if_splits)

lemma wf_create_tag:
  "wf_store s \<Longrightarrow> create_tag s tag = Inr s' \<Longrightarrow> wf_store s'"
  by (fastforce simp: create_tag_def wf_store_def list_all_iff less_Suc_eq)

lemma wf_delete_entry:
  "wf_store s \<Longrightarrow> delete_entry s i = Inr (s', b) \<Longrightarrow> wf_store s'"
  by (cases "find (\<lambda>e. e_user_id e = current_uid s \<and> e_id e = i) (entries s)")
     (auto simp: delete_entry_def wf_store_def list_all_iff distinct_map_filter Let_def)

lemma get_or_create_tags_new:
  "get_or_create_tags fl uid stored pending nxt names = (p, ids) \<Longrightarrow>
     \<exists>new. p = pending @ new \<and> map t_id new = [nxt ..< nxt + length new] \<and>
           list_all (\<lambda>t. t_user_id t = uid \<and> t_tag t \<in> set names) new"
proof (induction names arbitrary: pending nxt p ids)
  case Nil
  then show ?case by simp
next
  case (Cons tag_name rest)
  show ?case
  proof (cases "find (\<lambda>t. t_tag t = tag_name) (if fl then stored @ pending else stored)")
    case None
    let ?t = "\<lparr>t_id = nxt, t_user_id = uid, t_tag = tag_name\<rparr>"
    obtain p' ids' where r: "get_or_create_tags fl uid stored (pending @ [?t]) (Suc nxt) rest = (p', ids')"
      by (cases "get_or_create_tags fl uid stored (pending @ [?t]) (Suc nxt) rest")
    with Cons.prems None have p: "p = p'" by simp
    from Cons.IH [OF r] obtain new where
      n: "p' = (pending @ [?t]) @ new" "map t_id new = [Suc nxt ..< Suc nxt + length new]"
         "list_all (\<lambda>t. t_user_id t = uid \<and> t_tag t \<in> set rest) new"
      by blast
    have "map t_id (?t # new) = [nxt ..< nxt + length (?t # new)]"
      using n(2) by (simp add: upt_conv_Cons del: upt_Suc)
    moreover have "list_all (\<lambda>t. t_user_id t = uid \<and> t_tag t \<in> set (tag_name # rest)) (?t # new)"
      using n(3) by (auto simp: list_all_iff)
    moreover have "p = pending @ (?t # new)" using p n(1) by simp
    ultimately show ?thesis by blast
  next
    case (Some t)
    obtain p' ids' where r: "get_or_create_tags fl uid stored pending nxt rest = (p', ids')"
      by (cases "get_or_create_tags fl uid stored pending nxt rest")
    with Cons.prems Some have p: "p = p'" by simp
    from Cons.IH [OF r] obtain new where
      n: "p' = pending @ new" "map t_id new = [nxt ..< nxt + length new]"
         "list_all (\<lambda>t. t_user_id t = uid \<and> t_tag t \<in> set rest) new"
      by blast
    have "list_all (\<lambda>t. t_user_id t = uid \<and> t_tag t \<in> set (tag_name # rest)) new"
      using n(3) by (auto simp: list_all_iff)
    with p n(1,2) show ?thesis by blast
  qed
qed

lemma get_or_create_tags_links:
  "get_or_create_tags fl uid stored pending nxt names = (p, ids) \<Longrightarrow>
     list_all2 (\<lambda>i nm. \<exists>t\<in>set (stored @ p). t_id t = i \<and> t_tag t = nm) ids names"
proof (induction names arbitrary: pending nxt p ids)
  case Nil
  then show ?case by simp
next
  case (Cons tag_name rest)
  show ?case
  proof (cases "find (\<lambda>t. t_tag t = tag_name) (if fl then stored @ pending else stored)")
    case None
    let ?t = "\<lparr>t_id = nxt, t_user_id = uid, t_tag = tag_name\<rparr>"
    obtain p' ids' where r: "get_or_create_tags fl uid stored (pending @ [?t]) (Suc nxt) rest = (p', ids')"
      by (cases "get_or_create_tags fl uid stored (pending @ [?t]) (Suc nxt) rest")
    with Cons.prems None have e: "p = p'" "ids = nxt # ids'" by simp_all
    from get_or_create_tags_new [OF r] obtain new where "p' = (pending @ [?t]) @ new" by blast
    then have "?t \<in> set (stored @ p')" by simp
    then have "\<exists>t\<in>set (stored @ p'). t_id t = nxt \<and> t_tag t = tag_name"
      by (rule bexI [rotated]) simp
    with Cons.IH [OF r] e show ?thesis by simp
  next
    case (Some t)
    obtain p' ids' where r: "get_or_create_tags fl uid stored pending nxt rest = (p', ids')"
      by (cases "get_or_create_tags fl uid stored pending nxt rest")
    with Cons.prems Some have e: "p = p'" "ids = t_id t # ids'" by simp_all
    from get_or_create_tags_new [OF r] obtain new where n: "p' = pending @ new" by blast
    from find_SomeD [OF Some] have "t \<in> set (stored @ pending)" "t_tag t = tag_name"
      by (auto split: if_splits)
    with n have "\<exists>t'\<in>set (stored @ p'). t_id t' = t_id t \<and> t_tag t' = tag_name"
      by auto
    with Cons.IH [OF r] e show ?thesis by simp
  qed
qed

lemma get_or_create_tags_length:
  "get_or_create_tags fl uid stored pending nxt names = (p, ids) \<Longrightarrow> length ids = length names"
  by (drule get_or_create_tags_links) (rule list_all2_lengthD)

lemma add_entry_total: "\<exists>s'. add_entry fl s entry = Inr s'"
  by (simp add: add_entry_def Let_def)

lemma add_entry_unchanged:
  "add_entry fl s entry = Inr s' \<Longrightarrow>
     users s' = users s \<and> accounts s' = accounts s \<and> current_uid s' = current_uid s \<and>
     next_user_id s' = next_user_id s \<and> next_account_id s' = next_account_id s"
  by (auto simp: add_entry_def Let_def)

lemma add_entry_entries:
  "add_entry fl s entry = Inr s' \<Longrightarrow>
     entries s' = entries s @
       [\<lparr>e_id = next_entry_id s, e_user_id = current_uid s,
         e_who = ei_who entry, e_when = ei_when entry,
         e_credit_account_id =
           map_option a_id (find (\<lambda>a. a_name a = ei_credit_account entry) (accounts s)),
         e_debit_account_id =
           map_option a_id (find (\<lambda>a. a_name a = ei_debit_account entry) (accounts s)),
         e_amount = ei_amount entry, e_description = ei_description entry\<rparr>] \<and>
     next_entry_id s' = Suc (next_entry_id s)"
  by (auto simp: add_entry_def Let_def)

lemma add_entry_tags:
  assumes "add_entry fl s entry = Inr s'"
  shows "\<exists>new ids.
           tags s' = tags s @ new \<and>
           map t_id new = [next_tag_id s ..< next_tag_id s + length new] \<and>
           list_all (\<lambda>t. t_user_id t = current_uid s) new \<and>
           next_tag_id s' = next_tag_id s + length new \<and>
           entry_tags s' = entry_tags s @
             map (\<lambda>(k, tid). \<lparr>et_id = k, et_user_id = current_uid s,
                                 et_entry_id = Some (next_entry_id s), et_tag_id = Some tid\<rparr>)
               (zip [next_entry_tag_id s ..< next_entry_tag_id s + length ids] ids) \<and>
           next_entry_tag_id s' = next_entry_tag_id s + length ids \<and>
           list_all2 (\<lambda>i nm. \<exists>t\<in>set (tags s'). t_id t = i \<and> t_tag t = nm) ids
             (case ei_tags entry of None \<Rightarrow> [] | Some names \<Rightarrow> names)"
proof (cases "\<exists>names. ei_tags entry = Some names \<and> names \<noteq> []")
  case False
  then have "ei_tags entry = None \<or> ei_tags entry = Some []"
    by (cases "ei_tags entry") auto
  with assms have "tags s' = tags s @ [] \<and> next_tag_id s' = next_tag_id s + length ([] :: tag_row list) \<and>
      entry_tags s' = entry_tags s \<and> next_entry_tag_id s' = next_entry_tag_id s"
    by (auto simp: add_entry_def Let_def)
  moreover have "(case ei_tags entry of None \<Rightarrow> [] | Some names \<Rightarrow> names) = []"
    using \<open>ei_tags entry = None \<or> ei_tags entry = Some []\<close> by auto
  ultimately show ?thesis
    by (intro exI [of _ "[]"]) simp
next
  case True
  then obtain names where nm: "ei_tags entry = Some names" "names \<noteq> []" by blast
  obtain p ids where r:
    "get_or_create_tags fl (current_uid s) (tags s) [] (next_tag_id s) names = (p, ids)"
    by (cases "get_or_create_tags fl (current_uid s) (tags s) [] (next_tag_id s) names")
  from get_or_create_tags_new [OF r] obtain new where
    n: "p = new" "map t_id new = [next_tag_id s ..< next_tag_id s + length new]"
       "list_all (\<lambda>t. t_user_id t = current_uid s \<and> t_tag t \<in> set names) new"
    by auto
  from assms nm r have s': "tags s' = tags s @ p" "next_tag_id s' = next_tag_id s + length p"
    "entry_tags s' = entry_tags s @
       map (\<lambda>(k, tid). \<lparr>et_id = k, et_user_id = current_uid s,
                           et_entry_id = Some (next_entry_id s), et_tag_id = Some tid\<rparr>)
         (zip [next_entry_tag_id s ..< next_entry_tag_id s + length ids] ids)"
    "next_entry_tag_id s' = next_entry_tag_id s + length ids"
    by (auto simp: add_entry_def Let_def)
  have "list_all2 (\<lambda>i nm. \<exists>t\<in>set (tags s'). t_id t = i \<and> t_tag t = nm) ids names"
    using get_or_create_tags_links [OF r] s'(1) by simp
  moreover have "list_all (\<lambda>t. t_user_id t = current_uid s) new"
    using n(3) by (auto simp: list_all_iff)
  ultimately show ?thesis
    using s' n(1,2) nm by (intro exI [of _ new] exI [of _ ids]) simp
qed

lemma wf_add_entry:
  assumes "wf_store s" "add_entry fl s entry = Inr s'"
  shows "wf_store s'"
proof -
  from add_entry_tags [OF assms(2)] obtain new ids where
    t: "tags s' = tags s @ new" "map t_id new = [next_tag_id s ..< next_tag_id s + length new]"
       "next_tag_id s' = next_tag_id s + length new"
       "entry_tags s' = entry_tags s @
          map (\<lambda>(k, tid). \<lparr>et_id = k, et_user_id = current_uid s,
                              et_entry_id = Some (next_entry_id s), et_tag_id = Some tid\<rparr>)
            (zip [next_entry_tag_id s ..< next_entry_tag_id s + length ids] ids)"
       "next_entry_tag_id s' = next_entry_tag_id s + length ids"
    by blast
  let ?links = "map (\<lambda>(k, tid). \<lparr>et_id = k, et_user_id = current_uid s,
                              et_entry_id = Some (next_entry_id s), et_tag_id = Some tid\<rparr>)
            (zip [next_entry_tag_id s ..< next_entry_tag_id s + length ids] ids)"
  note u = add_entry_unchanged [OF assms(2)]
  note e = add_entry_entries [OF assms(2)]
  have mk: "map et_id ?links = [next_entry_tag_id s ..< next_entry_tag_id s + length ids]"
    by (simp add: map_zip_map [symmetric] comp_def case_prod_unfold del: upt_Suc)
  have "distinct (map t_id (tags s'))"
    using assms(1) t(1,2) by (auto simp: wf_store_def list_all_iff)
  moreover have "list_all (\<lambda>t. t_id t < next_tag_id s') (tags s')"
  proof -
    have "\<forall>x\<in>set new. t_id x < next_tag_id s + length new"
    proof
      fix x assume "x \<in> set new"
      then have "t_id x \<in> set (map t_id new)" by simp
      then show "t_id x < next_tag_id s + length new" unfolding t(2) by simp
    qed
    with assms(1) t(1,3) show ?thesis by (auto simp: wf_store_def list_all_iff)
  qed
  moreover have "distinct (map e_id (entries s'))" "list_all (\<lambda>e. e_id e < next_entry_id s') (entries s')"
    using assms(1) e by (auto simp: wf_store_def list_all_iff less_Suc_eq)
  moreover have "distinct (map et_id (entry_tags s'))"
    using assms(1) unfolding t(4) map_append mk by (auto simp: wf_store_def list_all_iff)
  moreover have "list_all (\<lambda>et. et_id et < next_entry_tag_id s' \<and>
                      ref_below (et_entry_id et) (next_entry_id s')) (entry_tags s')"
  proof -
    have "\<forall>x\<in>set ?links. et_id x < next_entry_tag_id s + length ids \<and> et_entry_id x = Some (next_entry_id s)"
    proof
      fix x assume x: "x \<in> set ?links"
      then have "et_id x \<in> et_id ` set ?links" by (rule imageI)
      then have "et_id x \<in> set (map et_id ?links)" by (simp only: set_map)
      then have "et_id x < next_entry_tag_id s + length ids" unfolding mk by simp
      moreover from x have "et_entry_id x = Some (next_entry_id s)" by auto
      ultimately show "et_id x < next_entry_tag_id s + length ids \<and> et_entry_id x = Some (next_entry_id s)" ..
    qed
    with assms(1) e show ?thesis unfolding t(4,5)
      by (auto simp: wf_store_def list_all_iff intro: ref_below_mono)
  qed
  ultimately show ?thesis
    using assms(1) u by (simp add: wf_store_def)
qed

lemmas example_defs = alice_row_def bob_row_def cash_row_def salary_row_def groceries_row_def
  alice_ledger_def bob_session_def cash_in_def paycheck_def correction_def self_transfer_def
  paycheck_row_def correction_row_def misc_row_def alice_paid_def bob_ledger_def
  rent_payment_def bob_shopping_def windfall_def alice_fortune_def bob_withdrawal_def
  savings_row_def alice_savings_def

lemma wf_alice_ledger: "wf_store alice_ledger"
  by (simp add: wf_store_def example_defs)

lemma wf_alice_paid: "wf_store alice_paid"
  by (simp add: wf_store_def example_defs)

text \<open>The example stores are reached from the empty store by the operations
  themselves.\<close>

lemma alice_ledger_reached:
  "\<exists>s1 s2 s3 s4 s5.
     create_user init_store \<lparr>ui_name = ''alice'', ui_email = ''alice@example.com'',
        ui_password = ''h1'', ui_salt = ''s1'', ui_created = Date 2024 1 1\<rparr> = Inr s1 \<and>
     create_user s1 \<lparr>ui_name = ''bob'', ui_email = ''bob@example.com'',
        ui_password = ''h2'', ui_salt = ''s2'', ui_created = Date 2024 1 1\<rparr> = Inr s2 \<and>
     set_current_user s2 ''alice@example.com'' = Inr s3 \<and>
     create_account s3 cash_in = Inr s4 \<and>
     create_account s4 \<lparr>ai_name = ''salary'', ai_description = ''job'', ai_type = ''income''\<rparr>
       = Inr s5 \<and>
     create_tag s5 ''groceries'' = Inr alice_ledger \<and>
     set_current_user alice_ledger ''bob@example.com'' = Inr bob_session"
  by (simp add: create_user_def set_current_user_def create_account_def create_tag_def
        account_unique_violation_def init_store_def example_defs)

lemma wf_bob_ledger: "wf_store bob_ledger"
  by (simp add: wf_store_def example_defs)

lemma bob_ledger_reached:
  "\<exists>s1. create_account bob_session
           \<lparr>ai_name = ''wallet'', ai_description = ''purse'', ai_type = ''asset''\<rparr> = Inr s1 \<and>
         create_account s1
           \<lparr>ai_name = ''food'', ai_description = ''meals'', ai_type = ''expense''\<rparr> = Inr bob_ledger"
  by (simp add: create_account_def account_unique_violation_def example_defs)

lemma alice_paid_reached:
  "\<exists>s1. add_entry fl alice_ledger paycheck = Inr s1 \<and> add_entry fl s1 correction = Inr alice_paid"
  by (simp add: add_entry_def Let_def example_defs)


lemma round_half_even_of_int [simp]: "round_half_even (of_int n) = n"
  by (simp add: round_half_even_def)

lemma adjusted_le:
  assumes "x \<noteq> 0"
  shows "10 powi adjusted x \<le> \<bar>x\<bar>"
proof (cases "1 \<le> \<bar>x\<bar>")
  case True
  let ?n = "nat \<lfloor>\<bar>x\<bar>\<rfloor>"
  from True have n: "0 < ?n" by simp
  from floorlog_bounds [OF n, of 10] have "10 ^ (floorlog 10 ?n - 1) \<le> ?n" by simp
  then have "(of_nat (10 ^ (floorlog 10 ?n - 1)) :: rat) \<le> of_nat ?n"
    by (simp only: of_nat_le_iff)
  then have "(10::rat) ^ (floorlog 10 ?n - 1) \<le> of_nat ?n" by simp
  also have "(of_nat ?n :: rat) = of_int \<lfloor>\<bar>x\<bar>\<rfloor>" using True by simp
  also have "\<dots> \<le> \<bar>x\<bar>" by (rule of_int_floor_le)
  finally have b: "(10::rat) ^ (floorlog 10 ?n - 1) \<le> \<bar>x\<bar>" .
  from n have "0 < floorlog 10 ?n" by (simp add: floorlog_def)
  then have "int (floorlog 10 ?n) - 1 = int (floorlog 10 ?n - 1)" by simp
  moreover from True have "adjusted x = int (floorlog 10 ?n) - 1"
    unfolding adjusted_def by (rule if_P)
  ultimately have "(10::rat) powi adjusted x = 10 ^ (floorlog 10 ?n - 1)"
    by (simp only: power_int_of_nat)
  with b show ?thesis by (simp only:)
next
  case False
  let ?y = "1 / \<bar>x\<bar>"
  let ?m = "nat (\<lceil>?y\<rceil> - 1)"
  from False assms have y: "1 < ?y" by simp
  then have c: "2 \<le> \<lceil>?y\<rceil>" by (simp add: le_ceiling_iff)
  then have m: "0 < ?m" by simp
  from floorlog_bounds [OF m, of 10] have "?m < 10 ^ floorlog 10 ?m" by simp
  then have "int ?m < int (10 ^ floorlog 10 ?m)" by (simp only: of_nat_less_iff)
  moreover from c have "int ?m = \<lceil>?y\<rceil> - 1" by (intro nat_0_le) linarith
  ultimately have "\<lceil>?y\<rceil> - 1 < 10 ^ floorlog 10 ?m"
    by (simp only: of_nat_power of_nat_numeral)
  then have "\<lceil>?y\<rceil> \<le> 10 ^ floorlog 10 ?m" by linarith
  then have "?y \<le> of_int (10 ^ floorlog 10 ?m)" by (simp only: ceiling_le_iff)
  then have "?y \<le> 10 ^ floorlog 10 ?m" by simp
  moreover have "0 < \<bar>x\<bar>" using assms by simp
  ultimately have "1 \<le> 10 ^ floorlog 10 ?m * \<bar>x\<bar>"
    by (simp only: pos_divide_le_eq)
  then have "1 / 10 ^ floorlog 10 ?m \<le> \<bar>x\<bar>"
    by (simp only: pos_divide_le_eq zero_less_power zero_less_numeral mult.commute)
  moreover from False have "adjusted x = - int (floorlog 10 ?m)"
    unfolding adjusted_def by (rule if_not_P)
  then have "(10::rat) powi adjusted x = 1 / 10 ^ floorlog 10 ?m"
    by (simp only: power_int_minus power_int_of_nat inverse_eq_divide)
  ultimately show ?thesis by (simp only:)
qed

lemma adjusted_less:
  assumes "x \<noteq> 0"
  shows "\<bar>x\<bar> < 10 powi (adjusted x + 1)"
proof (cases "1 \<le> \<bar>x\<bar>")
  case True
  let ?n = "nat \<lfloor>\<bar>x\<bar>\<rfloor>"
  from True have n: "0 < ?n" by simp
  from floorlog_bounds [OF n, of 10] have "?n < 10 ^ floorlog 10 ?n" by simp
  then have "int ?n < int (10 ^ floorlog 10 ?n)" by (simp only: of_nat_less_iff)
  moreover from True have "int ?n = \<lfloor>\<bar>x\<bar>\<rfloor>" by (intro nat_0_le) simp
  ultimately have "\<lfloor>\<bar>x\<bar>\<rfloor> < 10 ^ floorlog 10 ?n"
    by (simp only: of_nat_power of_nat_numeral)
  then have "\<bar>x\<bar> < of_int (10 ^ floorlog 10 ?n)" by (simp only: floor_less_iff)
  then have b: "\<bar>x\<bar> < 10 ^ floorlog 10 ?n" by simp
  from True have "adjusted x = int (floorlog 10 ?n) - 1"
    unfolding adjusted_def by (rule if_P)
  then have "adjusted x + 1 = int (floorlog 10 ?n)" by simp
  then have "(10::rat) powi (adjusted x + 1) = 10 ^ floorlog 10 ?n"
    by (simp only: power_int_of_nat)
  with b show ?thesis by (simp only:)
next
  case False
  let ?y = "1 / \<bar>x\<bar>"
  let ?m = "nat (\<lceil>?y\<rceil> - 1)"
  from False assms have y: "1 < ?y" by simp
  then have c: "2 \<le> \<lceil>?y\<rceil>" by (simp add: le_ceiling_iff)
  then have m: "0 < ?m" by simp
  have xpos: "0 < \<bar>x\<bar>" using assms by simp
  from m have fl: "0 < floorlog 10 ?m" by (simp add: floorlog_def)
  from floorlog_bounds [OF m, of 10] have "10 ^ (floorlog 10 ?m - 1) \<le> ?m" by simp
  then have "int (10 ^ (floorlog 10 ?m - 1)) \<le> int ?m" by (simp only: of_nat_le_iff)
  moreover from c have "int ?m = \<lceil>?y\<rceil> - 1" by (intro nat_0_le) linarith
  ultimately have "10 ^ (floorlog 10 ?m - 1) \<le> \<lceil>?y\<rceil> - 1"
    by (simp only: of_nat_power of_nat_numeral)
  then have "10 ^ (floorlog 10 ?m - 1) < \<lceil>?y\<rceil>" by linarith
  then have "of_int (10 ^ (floorlog 10 ?m - 1)) < ?y" by (simp only: less_ceiling_iff)
  then have "10 ^ (floorlog 10 ?m - 1) < ?y" by simp
  then have "10 ^ (floorlog 10 ?m - 1) * \<bar>x\<bar> < 1"
    using xpos by (simp only: pos_less_divide_eq)
  then have b: "\<bar>x\<bar> < 1 / 10 ^ (floorlog 10 ?m - 1)"
    by (simp only: pos_less_divide_eq zero_less_power zero_less_numeral mult.commute)
  from False have "adjusted x = - int (floorlog 10 ?m)"
    unfolding adjusted_def by (rule if_not_P)
  with fl have "adjusted x + 1 = - int (floorlog 10 ?m - 1)" by simp
  then have "(10::rat) powi (adjusted x + 1) = 1 / 10 ^ (floorlog 10 ?m - 1)"
    by (simp only: power_int_minus power_int_of_nat inverse_eq_divide)
  with b show ?thesis by (simp only:)
qed

lemma adjusted_eqI:
  assumes "10 powi a \<le> \<bar>x\<bar>" "\<bar>x\<bar> < 10 powi (a + 1)"
  shows "adjusted x = a"
proof -
  have "(0::rat) < 10 powi a" by simp
  with assms(1) have "0 < \<bar>x\<bar>" by linarith
  then have x: "x \<noteq> 0" by simp
  have "\<not> adjusted x < a"
  proof
    assume "adjusted x < a"
    then have "adjusted x + 1 \<le> a" by simp
    then have "(10::rat) powi (adjusted x + 1) \<le> 10 powi a"
      by (rule power_int_increasing) simp
    with adjusted_less [OF x] assms(1) show False by simp
  qed
  moreover have "\<not> a < adjusted x"
  proof
    assume "a < adjusted x"
    then have "a + 1 \<le> adjusted x" by simp
    then have "(10::rat) powi (a + 1) \<le> 10 powi adjusted x"
      by (rule power_int_increasing) simp
    with adjusted_le [OF x] assms(2) show False by simp
  qed
  ultimately show ?thesis by simp
qed

lemma decimal_round_zero [simp]: "decimal_round 0 = 0"
  by (simp add: decimal_round_def)

lemma decimal_round_exact:
  assumes "x = of_int c * 10 powi k" "\<bar>c\<bar> < 10 ^ 28"
  shows "decimal_round x = x"
proof (cases "x = 0")
  case True
  then show ?thesis by simp
next
  case False
  define e where "e = adjusted x - 27"
  have p: "(0::rat) < 10 powi k" by simp
  from assms(2) have "(of_int \<bar>c\<bar> :: rat) < of_int (10 ^ 28)" by (simp only: of_int_less_iff)
  then have "\<bar>of_int c :: rat\<bar> < 10 ^ 28" by simp
  then have "\<bar>x\<bar> < 10 ^ 28 * 10 powi k"
    unfolding assms(1) abs_mult using p by (simp add: mult_strict_right_mono)
  also have "(10::rat) ^ 28 * 10 powi k = 10 powi (k + 28)"
    by (simp add: power_int_add)
  finally have ub: "\<bar>x\<bar> < 10 powi (k + 28)" .
  have "\<not> k + 28 \<le> adjusted x"
  proof
    assume "k + 28 \<le> adjusted x"
    then have "(10::rat) powi (k + 28) \<le> 10 powi adjusted x"
      by (rule power_int_increasing) simp
    with adjusted_le [OF False] ub show False by simp
  qed
  then have ek: "e \<le> k" by (simp add: e_def)
  then have "(10::rat) powi (k - e) = of_int (10 ^ nat (k - e))"
    by (simp add: power_int_def)
  moreover have "x / 10 powi e = of_int c * 10 powi (k - e)"
    unfolding assms(1) by (simp add: power_int_diff)
  ultimately have q: "x / 10 powi e = of_int (c * 10 ^ nat (k - e))" by simp
  have "decimal_round x = of_int (round_half_even (x / 10 powi e)) * 10 powi e"
    using False by (simp add: decimal_round_def e_def Let_def)
  also have "\<dots> = (x / 10 powi e) * 10 powi e"
    unfolding q round_half_even_of_int ..
  also have "\<dots> = x" by simp
  finally show ?thesis .
qed

lemma decimal_round_of_int: "\<bar>c\<bar> < 10 ^ 28 \<Longrightarrow> decimal_round (of_int c) = of_int c"
  using decimal_round_exact [of "of_int c" c 0] by simp

lemma decimal_round_29_digits:
  "decimal_round 10000000000000000000000000001 = 10000000000000000000000000000"
proof -
  have a: "adjusted 10000000000000000000000000001 = 28"
    by (rule adjusted_eqI) simp_all
  have f: "\<lfloor>10000000000000000000000000001 / 10 :: rat\<rfloor> = 1000000000000000000000000000"
    by (rule floor_unique) simp_all
  have r: "round_half_even (10000000000000000000000000001 / 10) = 1000000000000000000000000000"
    unfolding round_half_even_def f Let_def by simp
  show ?thesis
    unfolding decimal_round_def a Let_def using r by simp
qed

lemma decimal_round_examples [simp]:
  "decimal_round 800 = 800" "decimal_round 1000 = 1000" "decimal_round (- 1000) = - 1000"
  using decimal_round_of_int [of 800] decimal_round_of_int [of 1000]
    decimal_round_of_int [of "- 1000"] by simp_all

lemma zero_if_not_sql_sum: "zero_if_not (sql_sum xs) = sum_list xs"
  by (simp add: zero_if_not_def sql_sum_def)

lemma get_account_balance_sums:
  "get_account_balance s nm =
     Inr (decimal_round
           (sum_list (map e_amount
              (filter (\<lambda>e. e_user_id e = current_uid s \<and> account_has s (e_debit_account_id e) nm)
                 (entries s)))
            - sum_list (map e_amount
              (filter (\<lambda>e. e_user_id e = current_uid s \<and> account_has s (e_credit_account_id e) nm)
                 (entries s)))))"
  by (simp add: get_account_balance_def Let_def zero_if_not_sql_sum)

lemma account_has_add_entry:
  "add_entry fl s entry = Inr s' \<Longrightarrow> account_has s' r nm = account_has s r nm"
  by (drule add_entry_unchanged, cases r) (simp_all add: account_has_def)

lemma account_has_found:
  assumes "distinct (map a_id (accounts s))" "find (\<lambda>a. a_name a = n) (accounts s) = Some a"
  shows "account_has s (Some (a_id a)) m \<longleftrightarrow> m = n"
proof -
  from find_SomeD [OF assms(2)] have a: "a \<in> set (accounts s)" "a_name a = n" by simp_all
  have "\<And>b. b \<in> set (accounts s) \<Longrightarrow> a_id b = a_id a \<Longrightarrow> b = a"
    using assms(1) a(1) by (meson distinct_map inj_onD)
  with a show ?thesis by (auto simp: account_has_def list_ex_iff)
qed

lemma account_has_found_self:
  "find (\<lambda>a. a_name a = n) (accounts s) = Some a \<Longrightarrow> account_has s (Some (a_id a)) n"
  by (drule find_SomeD) (auto simp: account_has_def list_ex_iff)

lemma balance_sums_add_entry:
  assumes "add_entry fl s entry = Inr s'"
  shows "sum_list (map e_amount
           (filter (\<lambda>e. e_user_id e = current_uid s' \<and> account_has s' (e_debit_account_id e) nm)
              (entries s'))) =
         sum_list (map e_amount
           (filter (\<lambda>e. e_user_id e = current_uid s \<and> account_has s (e_debit_account_id e) nm)
              (entries s)))
         + (if account_has s (map_option a_id
                  (find (\<lambda>a. a_name a = ei_debit_account entry) (accounts s))) nm
            then ei_amount entry else 0)"
    and "sum_list (map e_amount
           (filter (\<lambda>e. e_user_id e = current_uid s' \<and> account_has s' (e_credit_account_id e) nm)
              (entries s'))) =
         sum_list (map e_amount
           (filter (\<lambda>e. e_user_id e = current_uid s \<and> account_has s (e_credit_account_id e) nm)
              (entries s)))
         + (if account_has s (map_option a_id
                  (find (\<lambda>a. a_name a = ei_credit_account entry) (accounts s))) nm
            then ei_amount entry else 0)"
  using add_entry_entries [OF assms] add_entry_unchanged [OF assms]
  by (simp_all add: account_has_add_entry [OF assms])

lemma entry_records_ids:
  "entry_records s es = Inr rows \<Longrightarrow> map le_id rows = map e_id es"
proof (induction es arbitrary: rows)
  case Nil
  then show ?case by simp
next
  case (Cons e es)
  from Cons.prems obtain r rs where
    r: "entry_record s e = Inr r" "entry_records s es = Inr rs" "rows = r # rs"
    by (auto split: sum.splits)
  from r(1) have "le_id r = e_id e"
    by (auto simp: entry_record_def split: sum.splits)
  with Cons.IH [OF r(2)] r(3) show ?case by simp
qed

lemma set_current_user_unknown:
  "\<not> (\<exists>u\<in>set (users s). u_email u = email) \<Longrightarrow> set_current_user s email = Inl AttributeError"
  by (cases "find (\<lambda>u. u_email u = email) (users s)")
     (auto simp: set_current_user_def dest: find_SomeD)

lemma set_current_user_known:
  assumes "\<exists>u\<in>set (users s). u_email u = email"
  shows "\<exists>u\<in>set (users s). u_email u = email \<and>
           set_current_user s email = Inr (s\<lparr>current_uid := Some (u_id u)\<rparr>)"
proof -
  from assms obtain u where u: "find (\<lambda>u. u_email u = email) (users s) = Some u"
    by (cases "find (\<lambda>u. u_email u = email) (users s)") (auto simp: find_None_iff)
  from find_SomeD [OF u] u show ?thesis by (auto simp: set_current_user_def)
qed

lemma entry_record_fields:
  "entry_record s e = Inr r \<Longrightarrow>
     le_id r = e_id e \<and> le_when r = e_when e \<and> le_description r = e_description e \<and>
     le_amount r = e_amount e \<and> le_who r = e_who e \<and>
     account_name_of s (e_credit_account_id e) = Inr (le_credit_account r) \<and>
     account_name_of s (e_debit_account_id e) = Inr (le_debit_account r) \<and>
     tag_texts s (filter (\<lambda>et. et_entry_id et = Some (e_id e)) (entry_tags s)) = Inr (le_tags r)"
  by (auto simp: entry_record_def split: sum.splits)

lemma entry_records_mem:
  "entry_records s es = Inr rows \<Longrightarrow> r \<in> set rows \<Longrightarrow> \<exists>e\<in>set es. entry_record s e = Inr r"
proof (induction es arbitrary: rows)
  case Nil
  then show ?case by simp
next
  case (Cons e es)
  from Cons.prems(1) obtain r' rs where
    r: "entry_record s e = Inr r'" "entry_records s es = Inr rs" "rows = r' # rs"
    by (auto split: sum.splits)
  show ?case
  proof (cases "r = r'")
    case True
    with r(1) show ?thesis by simp
  next
    case False
    with Cons.prems(2) r(3) have "r \<in> set rs" by simp
    from Cons.IH [OF r(2) this] show ?thesis by auto
  qed
qed

lemma entry_records_append:
  "entry_records s (xs @ ys) =
     (case entry_records s xs of
        Inl err \<Rightarrow> Inl err
      | Inr rs \<Rightarrow> (case entry_records s ys of Inl err \<Rightarrow> Inl err | Inr rs' \<Rightarrow> Inr (rs @ rs')))"
  by (induction xs) (auto split: sum.splits)

lemma entry_records_cong:
  "(\<And>e. e \<in> set es \<Longrightarrow> entry_record s' e = entry_record s e) \<Longrightarrow>
     entry_records s' es = entry_records s es"
  by (induction es) (auto split: sum.splits)

lemma entry_records_total:
  "(\<And>e. e \<in> set es \<Longrightarrow> \<exists>r. entry_record s e = Inr r) \<Longrightarrow> \<exists>rows. entry_records s es = Inr rows"
proof (induction es)
  case Nil
  then show ?case by simp
next
  case (Cons e es)
  from Cons.prems obtain r where r: "entry_record s e = Inr r" by auto
  from Cons.IH Cons.prems obtain rs where "entry_records s es = Inr rs" by auto
  with r show ?case by simp
qed

lemma account_name_of_found:
  assumes "distinct (map a_id (accounts s))" "a \<in> set (accounts s)"
  shows "account_name_of s (Some (a_id a)) = Inr (a_name a)"
  using find_by_key [OF assms] by (simp add: account_name_of_def)

lemma account_name_of_has:
  assumes "distinct (map a_id (accounts s))" "account_has s ref nm"
  shows "account_name_of s ref = Inr nm"
proof -
  from assms(2) obtain a where "a \<in> set (accounts s)" "ref = Some (a_id a)" "a_name a = nm"
    by (cases ref) (auto simp: account_has_def list_ex_iff)
  with account_name_of_found [OF assms(1)] show ?thesis by simp
qed

lemma account_name_of_total:
  "\<exists>a\<in>set (accounts s). ref = Some (a_id a) \<Longrightarrow> \<exists>n. account_name_of s ref = Inr n"
proof -
  assume "\<exists>a\<in>set (accounts s). ref = Some (a_id a)"
  then obtain a where a: "a \<in> set (accounts s)" "ref = Some (a_id a)" by blast
  then obtain b where "find (\<lambda>x. a_id x = a_id a) (accounts s) = Some b"
    by (cases "find (\<lambda>x. a_id x = a_id a) (accounts s)") (auto simp: find_None_iff)
  with a(2) show ?thesis by (simp add: account_name_of_def)
qed

lemma tag_texts_total:
  "(\<And>et. et \<in> set ets \<Longrightarrow> \<exists>t\<in>set (tags s). et_tag_id et = Some (t_id t)) \<Longrightarrow>
     \<exists>texts. tag_texts s ets = Inr texts"
proof (induction ets)
  case Nil
  then show ?case by simp
next
  case (Cons et ets)
  from Cons.prems obtain t where t: "t \<in> set (tags s)" "et_tag_id et = Some (t_id t)" by auto
  then obtain t' where "find (\<lambda>x. t_id x = t_id t) (tags s) = Some t'"
    by (cases "find (\<lambda>x. t_id x = t_id t) (tags s)") (auto simp: find_None_iff)
  moreover from Cons.IH Cons.prems obtain texts where "tag_texts s ets = Inr texts" by auto
  ultimately show ?case using t(2) by simp
qed

lemma tag_texts_links:
  assumes "distinct (map t_id (tags s))"
    and "list_all2 (\<lambda>et nm. \<exists>t\<in>set (tags s). et_tag_id et = Some (t_id t) \<and> t_tag t = nm) ets names"
  shows "tag_texts s ets = Inr names"
  using assms(2)
proof (induction rule: list_all2_induct)
  case Nil
  then show ?case by simp
next
  case (Cons et ets nm names)
  from Cons.hyps(1) obtain t where t: "t \<in> set (tags s)" "et_tag_id et = Some (t_id t)" "t_tag t = nm"
    by blast
  from find_by_key [OF assms(1) t(1)] t(2,3) Cons.IH show ?case by simp
qed

lemma tag_texts_extend:
  "tag_texts s ets = Inr texts \<Longrightarrow> tags s' = tags s @ new \<Longrightarrow> tag_texts s' ets = Inr texts"
proof (induction ets arbitrary: texts)
  case Nil
  then show ?case by simp
next
  case (Cons et ets)
  from Cons.prems(1) obtain i t rest where
    x: "et_tag_id et = Some i" "find (\<lambda>t. t_id t = i) (tags s) = Some t"
       "tag_texts s ets = Inr rest" "texts = t_tag t # rest"
    by (auto split: option.splits sum.splits)
  from x(2) Cons.prems(2) have "find (\<lambda>t. t_id t = i) (tags s') = Some t"
    by (simp add: find_append)
  with Cons.IH [OF x(3) Cons.prems(2)] x(1,4) show ?case by simp
qed

lemma name_filter_iff:
  "name_filter s given ref \<longleftrightarrow> (\<forall>nm. given = Some nm \<and> nm \<noteq> [] \<longrightarrow> account_has s ref nm)"
  by (cases given) (auto simp: name_filter_def)

lemma selected_entries_iff:
  "selected_entries s dr cr =
     filter (\<lambda>e. e_user_id e = current_uid s \<and>
                  (\<forall>d. dr = Some d \<and> d \<noteq> [] \<longrightarrow> account_has s (e_debit_account_id e) d) \<and>
                  (\<forall>c. cr = Some c \<and> c \<noteq> [] \<longrightarrow> account_has s (e_credit_account_id e) c))
       (entries s)"
  by (simp add: selected_entries_def name_filter_iff)

lemma entry_record_total:
  assumes "\<exists>a\<in>set (accounts s). e_credit_account_id e = Some (a_id a)"
    and "\<exists>a\<in>set (accounts s). e_debit_account_id e = Some (a_id a)"
    and "\<forall>et\<in>set (entry_tags s). et_entry_id et = Some (e_id e) \<longrightarrow>
           (\<exists>t\<in>set (tags s). et_tag_id et = Some (t_id t))"
  shows "\<exists>r. entry_record s e = Inr r"
proof -
  from account_name_of_total [OF assms(1)] obtain c
    where c: "account_name_of s (e_credit_account_id e) = Inr c" by blast
  from account_name_of_total [OF assms(2)] obtain d
    where d: "account_name_of s (e_debit_account_id e) = Inr d" by blast
  have "\<exists>texts. tag_texts s (filter (\<lambda>et. et_entry_id et = Some (e_id e)) (entry_tags s)) = Inr texts"
    using assms(3) by (intro tag_texts_total) auto
  then obtain texts where
    "tag_texts s (filter (\<lambda>et. et_entry_id et = Some (e_id e)) (entry_tags s)) = Inr texts" by blast
  with c d show ?thesis by (simp add: entry_record_def)
qed

lemma entry_records_each:
  "entry_records s es = Inr rows \<Longrightarrow> e \<in> set es \<Longrightarrow> \<exists>r. entry_record s e = Inr r"
  by (induction es arbitrary: rows) (auto split: sum.splits)

lemma account_name_of_add_entry:
  "add_entry fl s entry = Inr s' \<Longrightarrow> account_name_of s' ref = account_name_of s ref"
  by (drule add_entry_unchanged, cases ref) (simp_all add: account_name_of_def)

lemma account_name_of_lookup:
  assumes "distinct (map a_id (accounts s))"
  shows "account_name_of s (map_option a_id (find (\<lambda>a. a_name a = n) (accounts s))) =
           (if \<exists>a\<in>set (accounts s). a_name a = n then Inr n else Inl AttributeError)"
proof (cases "find (\<lambda>a. a_name a = n) (accounts s)")
  case None
  then have "\<not> (\<exists>a\<in>set (accounts s). a_name a = n)" by (auto simp: find_None_iff)
  with None show ?thesis by (simp add: account_name_of_def)
next
  case (Some a)
  from find_SomeD [OF Some] have a: "a \<in> set (accounts s)" "a_name a = n" by simp_all
  with account_name_of_found [OF assms a(1)] Some show ?thesis by auto
qed

lemma links_all2:
  assumes "list_all2 (\<lambda>i nm. \<exists>t\<in>set ts. t_id t = i \<and> t_tag t = nm) ids names"
    and "length ks = length ids"
  shows "list_all2 (\<lambda>et nm. \<exists>t\<in>set ts. et_tag_id et = Some (t_id t) \<and> t_tag t = nm)
           (map (\<lambda>(k, tid). \<lparr>et_id = k, et_user_id = uid, et_entry_id = Some eid,
                               et_tag_id = Some tid\<rparr>) (zip ks ids)) names"
proof -
  from assms(1) have len: "length ids = length names" by (rule list_all2_lengthD)
  show ?thesis
    unfolding list_all2_conv_all_nth
  proof (intro conjI allI impI)
    show "length (map (\<lambda>(k, tid). \<lparr>et_id = k, et_user_id = uid, et_entry_id = Some eid,
                               et_tag_id = Some tid\<rparr>) (zip ks ids)) = length names"
      using len assms(2) by simp
  next
    fix i
    assume "i < length (map (\<lambda>(k, tid). \<lparr>et_id = k, et_user_id = uid, et_entry_id = Some eid,
                               et_tag_id = Some tid\<rparr>) (zip ks ids))"
    then have i: "i < length ids" "i < length ks" using assms(2) by simp_all
    from assms(1) i(1) have "\<exists>t\<in>set ts. t_id t = ids ! i \<and> t_tag t = names ! i"
      by (simp add: list_all2_conv_all_nth)
    then show "\<exists>t\<in>set ts.
            et_tag_id (map (\<lambda>(k, tid). \<lparr>et_id = k, et_user_id = uid, et_entry_id = Some eid,
                               et_tag_id = Some tid\<rparr>) (zip ks ids) ! i) = Some (t_id t) \<and>
            t_tag t = names ! i"
      using i by (auto intro: sym)
  qed
qed

lemma add_entry_entry_tags_filter:
  assumes "wf_store s" "add_entry fl s entry = Inr s'"
  shows "\<exists>ids. list_all2 (\<lambda>i nm. \<exists>t\<in>set (tags s'). t_id t = i \<and> t_tag t = nm) ids
                 (case ei_tags entry of None \<Rightarrow> [] | Some names \<Rightarrow> names) \<and>
               filter (\<lambda>et. et_entry_id et = Some (next_entry_id s)) (entry_tags s') =
                 map (\<lambda>(k, tid). \<lparr>et_id = k, et_user_id = current_uid s,
                                     et_entry_id = Some (next_entry_id s), et_tag_id = Some tid\<rparr>)
                   (zip [next_entry_tag_id s ..< next_entry_tag_id s + length ids] ids) \<and>
               (\<forall>i. i < next_entry_id s \<longrightarrow>
                   filter (\<lambda>et. et_entry_id et = Some i) (entry_tags s') =
                   filter (\<lambda>et. et_entry_id et = Some i) (entry_tags s))"
proof -
  from add_entry_tags [OF assms(2)] obtain new ids where
    t: "entry_tags s' = entry_tags s @
          map (\<lambda>(k, tid). \<lparr>et_id = k, et_user_id = current_uid s,
                              et_entry_id = Some (next_entry_id s), et_tag_id = Some tid\<rparr>)
            (zip [next_entry_tag_id s ..< next_entry_tag_id s + length ids] ids)"
       "list_all2 (\<lambda>i nm. \<exists>t\<in>set (tags s'). t_id t = i \<and> t_tag t = nm) ids
             (case ei_tags entry of None \<Rightarrow> [] | Some names \<Rightarrow> names)"
    by blast
  let ?links = "map (\<lambda>(k, tid). \<lparr>et_id = k, et_user_id = current_uid s,
                              et_entry_id = Some (next_entry_id s), et_tag_id = Some tid\<rparr>)
            (zip [next_entry_tag_id s ..< next_entry_tag_id s + length ids] ids)"
  have old: "\<forall>et\<in>set (entry_tags s). et_entry_id et \<noteq> Some (next_entry_id s)"
    using assms(1) by (auto simp: wf_store_def list_all_iff)
  have new: "\<forall>et\<in>set ?links. et_entry_id et = Some (next_entry_id s)" by auto
  have 1: "filter (\<lambda>et. et_entry_id et = Some (next_entry_id s)) (entry_tags s') = ?links"
    unfolding t(1) filter_append using old new by (simp add: filter_empty_conv filter_id_conv)
  have 2: "\<forall>i. i < next_entry_id s \<longrightarrow>
                   filter (\<lambda>et. et_entry_id et = Some i) (entry_tags s') =
                   filter (\<lambda>et. et_entry_id et = Some i) (entry_tags s)"
  proof (intro allI impI)
    fix i assume "i < next_entry_id s"
    with new have "filter (\<lambda>et. et_entry_id et = Some i) ?links = []"
      by (auto simp: filter_empty_conv)
    then show "filter (\<lambda>et. et_entry_id et = Some i) (entry_tags s') =
                   filter (\<lambda>et. et_entry_id et = Some i) (entry_tags s)"
      unfolding t(1) filter_append by simp
  qed
  from t(2) 1 2 show ?thesis by blast
qed

lemma add_entry_new_tag_texts:
  assumes "wf_store s" "add_entry fl s entry = Inr s'"
  shows "tag_texts s' (filter (\<lambda>et. et_entry_id et = Some (next_entry_id s)) (entry_tags s')) =
           Inr (case ei_tags entry of None \<Rightarrow> [] | Some names \<Rightarrow> names)"
proof -
  from add_entry_entry_tags_filter [OF assms] obtain ids where
    i: "list_all2 (\<lambda>i nm. \<exists>t\<in>set (tags s'). t_id t = i \<and> t_tag t = nm) ids
                 (case ei_tags entry of None \<Rightarrow> [] | Some names \<Rightarrow> names)"
       "filter (\<lambda>et. et_entry_id et = Some (next_entry_id s)) (entry_tags s') =
                 map (\<lambda>(k, tid). \<lparr>et_id = k, et_user_id = current_uid s,
                                     et_entry_id = Some (next_entry_id s), et_tag_id = Some tid\<rparr>)
                   (zip [next_entry_tag_id s ..< next_entry_tag_id s + length ids] ids)"
    by blast
  from wf_add_entry [OF assms] have d: "distinct (map t_id (tags s'))" by (simp add: wf_store_def)
  show ?thesis
    unfolding i(2) by (rule tag_texts_links [OF d links_all2 [OF i(1)]]) simp
qed

lemma add_entry_old_record:
  assumes "wf_store s" "add_entry fl s entry = Inr s'" "e \<in> set (entries s)"
    and "entry_record s e = Inr r"
  shows "entry_record s' e = Inr r"
proof -
  from assms(1,3) have lt: "e_id e < next_entry_id s" by (auto simp: wf_store_def list_all_iff)
  from add_entry_entry_tags_filter [OF assms(1,2)] lt
  have f: "filter (\<lambda>et. et_entry_id et = Some (e_id e)) (entry_tags s') =
           filter (\<lambda>et. et_entry_id et = Some (e_id e)) (entry_tags s)" by blast
  from add_entry_tags [OF assms(2)] obtain new where n: "tags s' = tags s @ new" by blast
  note fl = entry_record_fields [OF assms(4)]
  from fl have tt: "tag_texts s' (filter (\<lambda>et. et_entry_id et = Some (e_id e)) (entry_tags s)) =
                      Inr (le_tags r)"
    by (intro tag_texts_extend [OF _ n]) simp
  from fl tt show ?thesis
    by (simp add: entry_record_def f account_name_of_add_entry [OF assms(2)])
qed

lemma add_entry_new_record:
  assumes "wf_store s" "add_entry fl s entry = Inr s'"
  shows "entry_record s'
           \<lparr>e_id = next_entry_id s, e_user_id = current_uid s,
             e_who = ei_who entry, e_when = ei_when entry,
             e_credit_account_id =
               map_option a_id (find (\<lambda>a. a_name a = ei_credit_account entry) (accounts s)),
             e_debit_account_id =
               map_option a_id (find (\<lambda>a. a_name a = ei_debit_account entry) (accounts s)),
             e_amount = ei_amount entry, e_description = ei_description entry\<rparr> =
         (if (\<exists>a\<in>set (accounts s). a_name a = ei_credit_account entry) \<and>
             (\<exists>a\<in>set (accounts s). a_name a = ei_debit_account entry)
          then Inr \<lparr>le_id = next_entry_id s, le_when = ei_when entry,
                    le_description = ei_description entry,
                    le_credit_account = ei_credit_account entry,
                    le_debit_account = ei_debit_account entry,
                    le_amount = ei_amount entry, le_who = ei_who entry,
                    le_tags = (case ei_tags entry of None \<Rightarrow> [] | Some names \<Rightarrow> names)\<rparr>
          else Inl AttributeError)"
proof -
  from assms(1) have d: "distinct (map a_id (accounts s))" by (simp add: wf_store_def)
  show ?thesis
    by (simp add: entry_record_def account_name_of_add_entry [OF assms(2)]
          account_name_of_lookup [OF d] add_entry_new_tag_texts [OF assms])
qed

lemma alice_fortune_reached: "add_entry fl alice_ledger windfall = Inr alice_fortune"
  by (simp add: add_entry_def Let_def example_defs)

lemma alice_savings_reached:
  "create_account alice_paid
     \<lparr>ai_name = ''savings'', ai_description = ''reserve'', ai_type = ''asset''\<rparr> = Inr alice_savings"
  by (simp add: create_account_def account_unique_violation_def example_defs)

text \<open>The account lookup of \<open>add_entry\<close> is by name over all owners (the slip of C2
  and C6): bob's entry crediting "cash" refers to alice's account, so bob's balance of
  "cash" is -5 although no entry refers to bob's own account "cash" (id 5).\<close>

lemma balance_of_unreferenced_account:
  "\<exists>s1 s2. create_account bob_ledger cash_in = Inr s1 \<and>
           add_entry fl s1 bob_withdrawal = Inr s2 \<and>
           accounts s2 = accounts bob_ledger @
             [\<lparr>a_id = 5, a_user_id = Some 2, a_name = ''cash'', a_description = ''wallet'',
               a_type = ''asset''\<rparr>] \<and>
           entries s2 =
             [\<lparr>e_id = 1, e_user_id = Some 2, e_who = ''bob'', e_when = Date 2024 3 2,
               e_credit_account_id = Some 1, e_debit_account_id = Some 4,
               e_amount = 5, e_description = ''snack''\<rparr>] \<and>
           get_account_balance s2 ''cash'' = Inr (- 5)"
proof -
  have "decimal_round (- 5) = - 5"
    using decimal_round_of_int [of "- 5"] by simp
  then show ?thesis
    by (simp add: create_account_def account_unique_violation_def add_entry_def Let_def
          get_account_balance_sums account_has_def example_defs)
qed

section \<open>Claims\<close>

text \<open>
  C1, as stated, fails: the difference of the two sums is computed in Python's decimal
  context and rounded to 28 significant digits. After a single entry of
  10000000000000000000000000001 debiting "cash", the balance of "cash" is
  10000000000000000000000000000.
\<close>

theorem get_account_balance_rounds_counterexample:
  "add_entry True alice_ledger windfall = Inr alice_fortune \<and>
   ei_debit_account windfall = ''cash'' \<and>
   ei_amount windfall = 10000000000000000000000000001 \<and>
   get_account_balance alice_fortune ''cash'' = Inr 10000000000000000000000000000"
  by (simp add: alice_fortune_reached)
     (simp add: get_account_balance_sums account_has_def decimal_round_29_digits example_defs)

text \<open>
  C1, amended. \<open>get_account_balance\<close> returns the sum of the amounts of the current
  user's entries whose debit side has the given name minus the sum over those whose
  credit side has it, an empty sum counting as zero, rounded to 28 significant digits;
  it is exactly that difference whenever the difference has at most 28 significant
  digits. It is zero when no entry of the current user has an account of that name on
  either side; in particular for an account of the current user to which no entry
  refers, provided the name is the only one of that owner and the current user's
  entries refer to accounts of the current user only. An entry debiting one existing
  account and crediting another adds its amount to the debit-side sum of the first and
  to the credit-side sum of the second; as the single entry of a ledger, with an amount
  of at most 28 significant digits, it gives that amount and its negative (1000 for
  "cash" and -1000 for "salary" in the example).
\<close>

theorem get_account_balance_rounded:
  "get_account_balance s nm =
     Inr (decimal_round
       (sum_list (map e_amount
          (filter (\<lambda>e. e_user_id e = current_uid s \<and> account_has s (e_debit_account_id e) nm)
             (entries s)))
        - sum_list (map e_amount
          (filter (\<lambda>e. e_user_id e = current_uid s \<and> account_has s (e_credit_account_id e) nm)
             (entries s))))) \<and>
   (\<forall>c k. sum_list (map e_amount
          (filter (\<lambda>e. e_user_id e = current_uid s \<and> account_has s (e_debit_account_id e) nm)
             (entries s)))
        - sum_list (map e_amount
          (filter (\<lambda>e. e_user_id e = current_uid s \<and> account_has s (e_credit_account_id e) nm)
             (entries s))) = of_int c * 10 powi k \<and> \<bar>c\<bar> < 10 ^ 28 \<longrightarrow>
      get_account_balance s nm =
        Inr (sum_list (map e_amount
          (filter (\<lambda>e. e_user_id e = current_uid s \<and> account_has s (e_debit_account_id e) nm)
             (entries s)))
             - sum_list (map e_amount
          (filter (\<lambda>e. e_user_id e = current_uid s \<and> account_has s (e_credit_account_id e) nm)
             (entries s))))) \<and>
   ((\<forall>e\<in>set (entries s). e_user_id e = current_uid s \<longrightarrow>
        \<not> account_has s (e_debit_account_id e) nm \<and> \<not> account_has s (e_credit_account_id e) nm)
      \<longrightarrow> get_account_balance s nm = Inr 0) \<and>
   (a \<in> set (accounts s) \<and> a_user_id a = current_uid s \<and>
    (\<forall>b\<in>set (accounts s). a_user_id b = current_uid s \<and> a_name b = a_name a \<longrightarrow> b = a) \<and>
    (\<forall>e\<in>set (entries s). \<forall>b\<in>set (accounts s).
        e_user_id e = current_uid s \<and>
        (e_debit_account_id e = Some (a_id b) \<or> e_credit_account_id e = Some (a_id b)) \<longrightarrow>
        a_user_id b = current_uid s) \<and>
    (\<forall>e\<in>set (entries s). e_debit_account_id e \<noteq> Some (a_id a) \<and>
                            e_credit_account_id e \<noteq> Some (a_id a))
      \<longrightarrow> get_account_balance s (a_name a) = Inr 0) \<and>
   (wf_store s \<and> ei_debit_account entry \<noteq> ei_credit_account entry \<and>
    (\<exists>a\<in>set (accounts s). a_name a = ei_debit_account entry) \<and>
    (\<exists>a\<in>set (accounts s). a_name a = ei_credit_account entry)
      \<longrightarrow> (\<exists>s'. add_entry fl s entry = Inr s' \<and>
             get_account_balance s' (ei_debit_account entry) =
               Inr (decimal_round
                 (sum_list (map e_amount
          (filter (\<lambda>e. e_user_id e = current_uid s \<and> account_has s (e_debit_account_id e) (ei_debit_account entry))
             (entries s))) + ei_amount entry
                  - sum_list (map e_amount
          (filter (\<lambda>e. e_user_id e = current_uid s \<and> account_has s (e_credit_account_id e) (ei_debit_account entry))
             (entries s))))) \<and>
             get_account_balance s' (ei_credit_account entry) =
               Inr (decimal_round
                 (sum_list (map e_amount
          (filter (\<lambda>e. e_user_id e = current_uid s \<and> account_has s (e_debit_account_id e) (ei_credit_account entry))
             (entries s)))
                  - (sum_list (map e_amount
          (filter (\<lambda>e. e_user_id e = current_uid s \<and> account_has s (e_credit_account_id e) (ei_credit_account entry))
             (entries s))) + ei_amount entry))) \<and>
             (entries s = [] \<and> (\<exists>c k. ei_amount entry = of_int c * 10 powi k \<and> \<bar>c\<bar> < 10 ^ 28) \<longrightarrow>
                get_account_balance s' (ei_debit_account entry) = Inr (ei_amount entry) \<and>
                get_account_balance s' (ei_credit_account entry) = Inr (- ei_amount entry))))"
proof (intro conjI impI allI)
  show "get_account_balance s nm =
     Inr (decimal_round
       (sum_list (map e_amount
          (filter (\<lambda>e. e_user_id e = current_uid s \<and> account_has s (e_debit_account_id e) nm)
             (entries s)))
        - sum_list (map e_amount
          (filter (\<lambda>e. e_user_id e = current_uid s \<and> account_has s (e_credit_account_id e) nm)
             (entries s)))))"
    by (rule get_account_balance_sums)
next
  fix c k
  assume "sum_list (map e_amount
          (filter (\<lambda>e. e_user_id e = current_uid s \<and> account_has s (e_debit_account_id e) nm)
             (entries s)))
        - sum_list (map e_amount
          (filter (\<lambda>e. e_user_id e = current_uid s \<and> account_has s (e_credit_account_id e) nm)
             (entries s))) = of_int c * 10 powi k \<and> \<bar>c\<bar> < 10 ^ 28"
  then have "decimal_round
       (sum_list (map e_amount
          (filter (\<lambda>e. e_user_id e = current_uid s \<and> account_has s (e_debit_account_id e) nm)
             (entries s)))
        - sum_list (map e_amount
          (filter (\<lambda>e. e_user_id e = current_uid s \<and> account_has s (e_credit_account_id e) nm)
             (entries s)))) =
       sum_list (map e_amount
          (filter (\<lambda>e. e_user_id e = current_uid s \<and> account_has s (e_debit_account_id e) nm)
             (entries s)))
        - sum_list (map e_amount
          (filter (\<lambda>e. e_user_id e = current_uid s \<and> account_has s (e_credit_account_id e) nm)
             (entries s)))"
    by (intro decimal_round_exact [of _ c k]) simp_all
  then show "get_account_balance s nm =
        Inr (sum_list (map e_amount
          (filter (\<lambda>e. e_user_id e = current_uid s \<and> account_has s (e_debit_account_id e) nm)
             (entries s)))
             - sum_list (map e_amount
          (filter (\<lambda>e. e_user_id e = current_uid s \<and> account_has s (e_credit_account_id e) nm)
             (entries s))))"
    by (simp only: get_account_balance_sums)
next
  assume "\<forall>e\<in>set (entries s). e_user_id e = current_uid s \<longrightarrow>
        \<not> account_has s (e_debit_account_id e) nm \<and> \<not> account_has s (e_credit_account_id e) nm"
  then have "filter (\<lambda>e. e_user_id e = current_uid s \<and> account_has s (e_debit_account_id e) nm)
               (entries s) = []"
    and "filter (\<lambda>e. e_user_id e = current_uid s \<and> account_has s (e_credit_account_id e) nm)
               (entries s) = []"
    by (auto simp: filter_empty_conv)
  then show "get_account_balance s nm = Inr 0"
    by (simp add: get_account_balance_sums)
next
  assume h: "a \<in> set (accounts s) \<and> a_user_id a = current_uid s \<and>
    (\<forall>b\<in>set (accounts s). a_user_id b = current_uid s \<and> a_name b = a_name a \<longrightarrow> b = a) \<and>
    (\<forall>e\<in>set (entries s). \<forall>b\<in>set (accounts s).
        e_user_id e = current_uid s \<and>
        (e_debit_account_id e = Some (a_id b) \<or> e_credit_account_id e = Some (a_id b)) \<longrightarrow>
        a_user_id b = current_uid s) \<and>
    (\<forall>e\<in>set (entries s). e_debit_account_id e \<noteq> Some (a_id a) \<and>
                            e_credit_account_id e \<noteq> Some (a_id a))"
  have none: "\<And>e r. e \<in> set (entries s) \<Longrightarrow> e_user_id e = current_uid s \<Longrightarrow>
                 r = e_debit_account_id e \<or> r = e_credit_account_id e \<Longrightarrow>
                 \<not> account_has s r (a_name a)"
  proof
    fix e r
    assume e: "e \<in> set (entries s)" "e_user_id e = current_uid s"
      and r: "r = e_debit_account_id e \<or> r = e_credit_account_id e"
      and "account_has s r (a_name a)"
    then obtain b where b: "b \<in> set (accounts s)" "r = Some (a_id b)" "a_name b = a_name a"
      by (cases r) (auto simp: account_has_def list_ex_iff)
    with h e r have "a_user_id b = current_uid s" by blast
    with h b have "b = a" by blast
    with h e(1) r b(2) show False by blast
  qed
  then have "filter (\<lambda>e. e_user_id e = current_uid s \<and>
                         account_has s (e_debit_account_id e) (a_name a)) (entries s) = []"
    and "filter (\<lambda>e. e_user_id e = current_uid s \<and>
                         account_has s (e_credit_account_id e) (a_name a)) (entries s) = []"
    by (auto simp: filter_empty_conv)
  then show "get_account_balance s (a_name a) = Inr 0"
    by (simp add: get_account_balance_sums)
next
  assume h: "wf_store s \<and> ei_debit_account entry \<noteq> ei_credit_account entry \<and>
    (\<exists>a\<in>set (accounts s). a_name a = ei_debit_account entry) \<and>
    (\<exists>a\<in>set (accounts s). a_name a = ei_credit_account entry)"
  then have d: "distinct (map a_id (accounts s))" by (simp add: wf_store_def)
  from h obtain ad where ad: "find (\<lambda>a. a_name a = ei_debit_account entry) (accounts s) = Some ad"
    by (cases "find (\<lambda>a. a_name a = ei_debit_account entry) (accounts s)")
       (auto simp: find_None_iff)
  from h obtain ac where ac: "find (\<lambda>a. a_name a = ei_credit_account entry) (accounts s) = Some ac"
    by (cases "find (\<lambda>a. a_name a = ei_credit_account entry) (accounts s)")
       (auto simp: find_None_iff)
  from add_entry_total obtain s' where s': "add_entry fl s entry = Inr s'" by blast
  from h have ne: "ei_debit_account entry \<noteq> ei_credit_account entry" by simp
  have bd: "get_account_balance s' (ei_debit_account entry) =
               Inr (decimal_round
                 (sum_list (map e_amount
          (filter (\<lambda>e. e_user_id e = current_uid s \<and> account_has s (e_debit_account_id e) (ei_debit_account entry))
             (entries s))) + ei_amount entry
                  - sum_list (map e_amount
          (filter (\<lambda>e. e_user_id e = current_uid s \<and> account_has s (e_credit_account_id e) (ei_debit_account entry))
             (entries s)))))"
    using ne by (simp add: get_account_balance_sums balance_sums_add_entry [OF s'] ad ac
          account_has_found [OF d ad] account_has_found [OF d ac])
  have bc: "get_account_balance s' (ei_credit_account entry) =
               Inr (decimal_round
                 (sum_list (map e_amount
          (filter (\<lambda>e. e_user_id e = current_uid s \<and> account_has s (e_debit_account_id e) (ei_credit_account entry))
             (entries s)))
                  - (sum_list (map e_amount
          (filter (\<lambda>e. e_user_id e = current_uid s \<and> account_has s (e_credit_account_id e) (ei_credit_account entry))
             (entries s))) + ei_amount entry)))"
    using ne by (simp add: get_account_balance_sums balance_sums_add_entry [OF s'] ad ac
          account_has_found [OF d ad] account_has_found [OF d ac])
  have ex: "entries s = [] \<and> (\<exists>c k. ei_amount entry = of_int c * 10 powi k \<and> \<bar>c\<bar> < 10 ^ 28) \<longrightarrow>
                get_account_balance s' (ei_debit_account entry) = Inr (ei_amount entry) \<and>
                get_account_balance s' (ei_credit_account entry) = Inr (- ei_amount entry)"
  proof (intro impI)
    assume e: "entries s = [] \<and> (\<exists>c k. ei_amount entry = of_int c * 10 powi k \<and> \<bar>c\<bar> < 10 ^ 28)"
    then obtain c k where a: "ei_amount entry = of_int c * 10 powi k" "\<bar>c\<bar> < 10 ^ 28" by blast
    from a have 1: "decimal_round (ei_amount entry) = ei_amount entry"
      by (intro decimal_round_exact [of _ c k])
    from a have 2: "decimal_round (- ei_amount entry) = - ei_amount entry"
      by (intro decimal_round_exact [of _ "- c" k]) simp_all
    from e 1 2 show "get_account_balance s' (ei_debit_account entry) = Inr (ei_amount entry) \<and>
                get_account_balance s' (ei_credit_account entry) = Inr (- ei_amount entry)"
      unfolding bd bc by simp
  qed
  from s' bd bc ex show "\<exists>s'. add_entry fl s entry = Inr s' \<and>
             get_account_balance s' (ei_debit_account entry) =
               Inr (decimal_round
                 (sum_list (map e_amount
          (filter (\<lambda>e. e_user_id e = current_uid s \<and> account_has s (e_debit_account_id e) (ei_debit_account entry))
             (entries s))) + ei_amount entry
                  - sum_list (map e_amount
          (filter (\<lambda>e. e_user_id e = current_uid s \<and> account_has s (e_credit_account_id e) (ei_debit_account entry))
             (entries s))))) \<and>
             get_account_balance s' (ei_credit_account entry) =
               Inr (decimal_round
                 (sum_list (map e_amount
          (filter (\<lambda>e. e_user_id e = current_uid s \<and> account_has s (e_debit_account_id e) (ei_credit_account entry))
             (entries s)))
                  - (sum_list (map e_amount
          (filter (\<lambda>e. e_user_id e = current_uid s \<and> account_has s (e_credit_account_id e) (ei_credit_account entry))
             (entries s))) + ei_amount entry))) \<and>
             (entries s = [] \<and> (\<exists>c k. ei_amount entry = of_int c * 10 powi k \<and> \<bar>c\<bar> < 10 ^ 28) \<longrightarrow>
                get_account_balance s' (ei_debit_account entry) = Inr (ei_amount entry) \<and>
                get_account_balance s' (ei_credit_account entry) = Inr (- ei_amount entry))"
    by (intro exI [of _ s'] conjI)
qed

text \<open>
  alice's ledger without entries has balance zero for "cash"; her account "savings",
  to which neither of her two entries refers, has balance zero; "cash" stands at 800
  after the paycheck and the correction; and the example of the specification gives
  1000 and -1000.
\<close>

theorem get_account_balance_rounded_witness:
  "get_account_balance alice_ledger ''cash'' = Inr 0 \<and>
   savings_row \<in> set (accounts alice_savings) \<and> length (entries alice_savings) = 2 \<and>
   get_account_balance alice_savings ''savings'' = Inr 0 \<and>
   get_account_balance alice_paid ''cash'' = Inr 800 \<and>
   wf_store alice_ledger \<and> entries alice_ledger = [] \<and>
   (\<exists>s'. add_entry True alice_ledger paycheck = Inr s' \<and>
         get_account_balance s' ''cash'' = Inr 1000 \<and>
         get_account_balance s' ''salary'' = Inr (- 1000))"
proof -
  note t1 = get_account_balance_rounded [where s = alice_ledger and nm = "''cash''"
      and a = cash_row and entry = paycheck and fl = True]
  note t2 = get_account_balance_rounded [where s = alice_savings and nm = "''savings''"
      and a = savings_row and entry = paycheck and fl = True]
  note t3 = get_account_balance_rounded [where s = alice_paid and nm = "''cash''"
      and a = cash_row and entry = paycheck and fl = True]
  have e: "entries alice_ledger = []" by (simp add: example_defs)
  have "\<forall>e\<in>set (entries alice_ledger). e_user_id e = current_uid alice_ledger \<longrightarrow>
        \<not> account_has alice_ledger (e_debit_account_id e) ''cash'' \<and>
        \<not> account_has alice_ledger (e_credit_account_id e) ''cash''"
    by (simp add: e)
  with t1 [THEN conjunct2, THEN conjunct2, THEN conjunct1]
  have z: "get_account_balance alice_ledger ''cash'' = Inr 0" by (rule mp)
  have h4: "savings_row \<in> set (accounts alice_savings) \<and>
    a_user_id savings_row = current_uid alice_savings \<and>
    (\<forall>b\<in>set (accounts alice_savings).
        a_user_id b = current_uid alice_savings \<and> a_name b = a_name savings_row \<longrightarrow>
        b = savings_row) \<and>
    (\<forall>e\<in>set (entries alice_savings). \<forall>b\<in>set (accounts alice_savings).
        e_user_id e = current_uid alice_savings \<and>
        (e_debit_account_id e = Some (a_id b) \<or> e_credit_account_id e = Some (a_id b)) \<longrightarrow>
        a_user_id b = current_uid alice_savings) \<and>
    (\<forall>e\<in>set (entries alice_savings). e_debit_account_id e \<noteq> Some (a_id savings_row) \<and>
                            e_credit_account_id e \<noteq> Some (a_id savings_row))"
    by (simp add: example_defs)
  have nm: "a_name savings_row = ''savings''" by (simp add: savings_row_def)
  from t2 [THEN conjunct2, THEN conjunct2, THEN conjunct2, THEN conjunct1] h4
  have "get_account_balance alice_savings (a_name savings_row) = Inr 0" by (rule mp)
  then have sv: "get_account_balance alice_savings ''savings'' = Inr 0" by (simp only: nm)
  have mem: "savings_row \<in> set (accounts alice_savings)" "length (entries alice_savings) = 2"
    by (simp_all add: example_defs)
  have sums: "sum_list (map e_amount
          (filter (\<lambda>e. e_user_id e = current_uid alice_paid \<and>
                       account_has alice_paid (e_debit_account_id e) ''cash'')
             (entries alice_paid)))
        - sum_list (map e_amount
          (filter (\<lambda>e. e_user_id e = current_uid alice_paid \<and>
                       account_has alice_paid (e_credit_account_id e) ''cash'')
             (entries alice_paid))) = 800"
    by (simp add: account_has_def example_defs)
  have "(800::rat) = of_int 800 * 10 powi 0 \<and> \<bar>800::int\<bar> < 10 ^ 28" by simp
  with t3 [THEN conjunct2, THEN conjunct1, THEN spec, THEN spec, of 800 0]
  have p: "get_account_balance alice_paid ''cash'' = Inr 800"
    unfolding sums by (rule mp)
  have h5: "wf_store alice_ledger \<and> ei_debit_account paycheck \<noteq> ei_credit_account paycheck \<and>
    (\<exists>a\<in>set (accounts alice_ledger). a_name a = ei_debit_account paycheck) \<and>
    (\<exists>a\<in>set (accounts alice_ledger). a_name a = ei_credit_account paycheck)"
    using wf_alice_ledger by (simp add: example_defs)
  have am: "entries alice_ledger = [] \<and>
      (\<exists>c k. ei_amount paycheck = of_int c * 10 powi k \<and> \<bar>c\<bar> < 10 ^ 28)"
  proof -
    have "ei_amount paycheck = of_int 1000 * 10 powi 0 \<and> \<bar>1000::int\<bar> < 10 ^ 28"
      by (simp add: paycheck_def)
    with e show ?thesis by blast
  qed
  have n: "ei_debit_account paycheck = ''cash''" "ei_credit_account paycheck = ''salary''"
    "ei_amount paycheck = 1000" by (simp_all add: paycheck_def)
  from t1 [THEN conjunct2, THEN conjunct2, THEN conjunct2, THEN conjunct2] h5
  obtain s' where s': "add_entry True alice_ledger paycheck = Inr s'"
    and imp: "entries alice_ledger = [] \<and>
        (\<exists>c k. ei_amount paycheck = of_int c * 10 powi k \<and> \<bar>c\<bar> < 10 ^ 28) \<longrightarrow>
        get_account_balance s' (ei_debit_account paycheck) = Inr (ei_amount paycheck) \<and>
        get_account_balance s' (ei_credit_account paycheck) = Inr (- ei_amount paycheck)"
    by blast
  from imp am have "get_account_balance s' (ei_debit_account paycheck) = Inr (ei_amount paycheck) \<and>
        get_account_balance s' (ei_credit_account paycheck) = Inr (- ei_amount paycheck)"
    by (rule mp)
  then have "get_account_balance s' ''cash'' = Inr 1000 \<and>
             get_account_balance s' ''salary'' = Inr (- 1000)"
    by (simp only: n)
  with s' have last: "\<exists>s'. add_entry True alice_ledger paycheck = Inr s' \<and>
         get_account_balance s' ''cash'' = Inr 1000 \<and>
         get_account_balance s' ''salary'' = Inr (- 1000)"
    by (intro exI [of _ s'] conjI) simp_all
  note facts = z mem sv p wf_alice_ledger e last
  show ?thesis by (intro conjI) (rule facts)+
qed

text \<open>
  C2. \<open>add_entry\<close> with a debit account name that no account has ("rent"): the call
  does not fail; the entry is stored with an empty debit reference, together with its
  association row and the new tag, and from then on \<open>list_entries\<close> of that user
  raises. This holds for either value of \<open>fl\<close>.
\<close>

theorem add_entry_unknown_account:
  "\<exists>s'. add_entry fl alice_ledger rent_payment = Inr s' \<and>
         entries s' =
           [\<lparr>e_id = 1, e_user_id = Some 1, e_who = ''alice'', e_when = Date 2024 2 1,
              e_credit_account_id = Some 1, e_debit_account_id = None,
              e_amount = 700, e_description = ''february''\<rparr>] \<and>
         entry_tags s' =
           [\<lparr>et_id = 1, et_user_id = Some 1, et_entry_id = Some 1, et_tag_id = Some 2\<rparr>] \<and>
         tags s' = [groceries_row, \<lparr>t_id = 2, t_user_id = Some 1, t_tag = ''misc''\<rparr>] \<and>
         list_entries s' None None = Inl AttributeError"
  by (simp add: add_entry_def Let_def list_entries_def selected_entries_def name_filter_def
        entry_record_def account_name_of_def example_defs)

text \<open>
  C3. In a well-formed store (which every store reached by the operations is), after
  \<open>add_entry\<close> any row that a listing returns under the id of the new entry carries
  exactly the submitted who, when, credit and debit account names, amount, description
  and tag texts (no tags when the key is absent). When both account names resolve and
  the listing worked before, the unfiltered listing afterwards is the old one followed
  by that row.
\<close>

theorem add_entry_list_entries_roundtrip:
  assumes "wf_store s" "add_entry fl s entry = Inr s'"
  shows "(\<forall>dr cr rows r.
            list_entries s' dr cr = Inr rows \<and> r \<in> set rows \<and> le_id r = next_entry_id s \<longrightarrow>
            r = \<lparr>le_id = next_entry_id s, le_when = ei_when entry,
                  le_description = ei_description entry,
                  le_credit_account = ei_credit_account entry,
                  le_debit_account = ei_debit_account entry,
                  le_amount = ei_amount entry, le_who = ei_who entry,
                  le_tags = (case ei_tags entry of None \<Rightarrow> [] | Some names \<Rightarrow> names)\<rparr>) \<and>
         ((\<exists>a\<in>set (accounts s). a_name a = ei_credit_account entry) \<and>
          (\<exists>a\<in>set (accounts s). a_name a = ei_debit_account entry) \<longrightarrow>
            (\<forall>rows. list_entries s None None = Inr rows \<longrightarrow>
               list_entries s' None None =
                 Inr (rows @
                   [\<lparr>le_id = next_entry_id s, le_when = ei_when entry,
                     le_description = ei_description entry,
                     le_credit_account = ei_credit_account entry,
                     le_debit_account = ei_debit_account entry,
                     le_amount = ei_amount entry, le_who = ei_who entry,
                     le_tags = (case ei_tags entry of None \<Rightarrow> [] | Some names \<Rightarrow> names)\<rparr>])))"
proof -
  let ?row = "\<lparr>e_id = next_entry_id s, e_user_id = current_uid s,
             e_who = ei_who entry, e_when = ei_when entry,
             e_credit_account_id =
               map_option a_id (find (\<lambda>a. a_name a = ei_credit_account entry) (accounts s)),
             e_debit_account_id =
               map_option a_id (find (\<lambda>a. a_name a = ei_debit_account entry) (accounts s)),
             e_amount = ei_amount entry, e_description = ei_description entry\<rparr>"
  let ?rec = "\<lparr>le_id = next_entry_id s, le_when = ei_when entry,
                  le_description = ei_description entry,
                  le_credit_account = ei_credit_account entry,
                  le_debit_account = ei_debit_account entry,
                  le_amount = ei_amount entry, le_who = ei_who entry,
                  le_tags = (case ei_tags entry of None \<Rightarrow> [] | Some names \<Rightarrow> names)\<rparr>"
  from add_entry_entries [OF assms(2)] have en: "entries s' = entries s @ [?row]" by simp
  from add_entry_unchanged [OF assms(2)] have cu: "current_uid s' = current_uid s" by simp
  note new = add_entry_new_record [OF assms]
  have first: "\<forall>dr cr rows r.
            list_entries s' dr cr = Inr rows \<and> r \<in> set rows \<and> le_id r = next_entry_id s \<longrightarrow>
            r = ?rec"
  proof (intro allI impI)
    fix dr cr rows r
    assume h: "list_entries s' dr cr = Inr rows \<and> r \<in> set rows \<and> le_id r = next_entry_id s"
    then obtain e where e: "e \<in> set (selected_entries s' dr cr)" "entry_record s' e = Inr r"
      unfolding list_entries_def by (blast dest: entry_records_mem)
    from e(1) have "e \<in> set (entries s')" by (simp add: selected_entries_def)
    then have mem: "e \<in> set (entries s) \<or> e = ?row"
      unfolding en by auto
    from entry_record_fields [OF e(2)] h have id: "e_id e = next_entry_id s" by simp
    have "e = ?row"
    proof (rule ccontr)
      assume "e \<noteq> ?row"
      with mem have "e \<in> set (entries s)" by blast
      with assms(1) have "e_id e < next_entry_id s" by (auto simp: wf_store_def list_all_iff)
      with id show False by simp
    qed
    with e(2) new show "r = ?rec" by (simp split: if_splits)
  qed
  have second: "(\<exists>a\<in>set (accounts s). a_name a = ei_credit_account entry) \<and>
          (\<exists>a\<in>set (accounts s). a_name a = ei_debit_account entry) \<longrightarrow>
            (\<forall>rows. list_entries s None None = Inr rows \<longrightarrow>
               list_entries s' None None = Inr (rows @ [?rec]))"
  proof (intro allI impI)
    fix rows
    assume found: "(\<exists>a\<in>set (accounts s). a_name a = ei_credit_account entry) \<and>
          (\<exists>a\<in>set (accounts s). a_name a = ei_debit_account entry)"
      and l: "list_entries s None None = Inr rows"
    have sel: "selected_entries s' None None = selected_entries s None None @ [?row]"
      by (simp add: selected_entries_def name_filter_def en cu)
    from l have old: "entry_records s (selected_entries s None None) = Inr rows"
      by (simp add: list_entries_def)
    have "entry_records s' (selected_entries s None None) =
            entry_records s (selected_entries s None None)"
    proof (rule entry_records_cong)
      fix e assume e: "e \<in> set (selected_entries s None None)"
      then have m: "e \<in> set (entries s)" by (simp add: selected_entries_def)
      from entry_records_each [OF old e] obtain r where r: "entry_record s e = Inr r" by blast
      from add_entry_old_record [OF assms m r] r show "entry_record s' e = entry_record s e"
        by simp
    qed
    with old have "entry_records s' (selected_entries s None None) = Inr rows" by simp
    moreover from new found have "entry_record s' ?row = Inr ?rec" by simp
    ultimately show "list_entries s' None None = Inr (rows @ [?rec])"
      unfolding list_entries_def sel entry_records_append by simp
  qed
  from first second show ?thesis by (rule conjI)
qed

text \<open>
  alice adds the paycheck and then the tagged correction; the listing returns both
  as submitted.
\<close>

theorem add_entry_list_entries_roundtrip_witness:
  "wf_store alice_ledger \<and>
   (\<exists>s1 s2. add_entry True alice_ledger paycheck = Inr s1 \<and>
            add_entry True s1 correction = Inr s2 \<and>
            list_entries s2 None None =
              Inr [\<lparr>le_id = 1, le_when = Date 2024 1 1, le_description = ''paycheck'',
                     le_credit_account = ''salary'', le_debit_account = ''cash'',
                     le_amount = 1000, le_who = ''bob'', le_tags = []\<rparr>,
                   \<lparr>le_id = 2, le_when = Date 2024 1 5, le_description = ''correction'',
                     le_credit_account = ''cash'', le_debit_account = ''salary'',
                     le_amount = 200, le_who = ''alice'',
                     le_tags = [''groceries'', ''misc'']\<rparr>])"
proof -
  from add_entry_total obtain s1 where s1: "add_entry True alice_ledger paycheck = Inr s1" by blast
  from add_entry_total obtain s2 where s2: "add_entry True s1 correction = Inr s2" by blast
  from wf_add_entry [OF wf_alice_ledger s1] have wf1: "wf_store s1" .
  from add_entry_unchanged [OF s1] add_entry_entries [OF s1]
  have f1: "accounts s1 = accounts alice_ledger" "next_entry_id s1 = 2" by (simp_all add: example_defs)
  have l0: "list_entries alice_ledger None None = Inr []"
    by (simp add: list_entries_def selected_entries_def example_defs)
  have a0: "(\<exists>a\<in>set (accounts alice_ledger). a_name a = ei_credit_account paycheck) \<and>
            (\<exists>a\<in>set (accounts alice_ledger). a_name a = ei_debit_account paycheck)"
    by (simp add: example_defs)
  from add_entry_list_entries_roundtrip [OF wf_alice_ledger s1] a0 l0
  have l1: "list_entries s1 None None =
      Inr ([] @ [\<lparr>le_id = next_entry_id alice_ledger, le_when = ei_when paycheck,
                     le_description = ei_description paycheck,
                     le_credit_account = ei_credit_account paycheck,
                     le_debit_account = ei_debit_account paycheck,
                     le_amount = ei_amount paycheck, le_who = ei_who paycheck,
                     le_tags = (case ei_tags paycheck of None \<Rightarrow> [] | Some names \<Rightarrow> names)\<rparr>])"
    by blast
  have a1: "(\<exists>a\<in>set (accounts s1). a_name a = ei_credit_account correction) \<and>
            (\<exists>a\<in>set (accounts s1). a_name a = ei_debit_account correction)"
    by (simp add: f1 example_defs)
  from add_entry_list_entries_roundtrip [OF wf1 s2] a1 l1
  have l2: "list_entries s2 None None =
      Inr (([] @ [\<lparr>le_id = next_entry_id alice_ledger, le_when = ei_when paycheck,
                     le_description = ei_description paycheck,
                     le_credit_account = ei_credit_account paycheck,
                     le_debit_account = ei_debit_account paycheck,
                     le_amount = ei_amount paycheck, le_who = ei_who paycheck,
                     le_tags = (case ei_tags paycheck of None \<Rightarrow> [] | Some names \<Rightarrow> names)\<rparr>]) @
           [\<lparr>le_id = next_entry_id s1, le_when = ei_when correction,
                     le_description = ei_description correction,
                     le_credit_account = ei_credit_account correction,
                     le_debit_account = ei_debit_account correction,
                     le_amount = ei_amount correction, le_who = ei_who correction,
                     le_tags = (case ei_tags correction of None \<Rightarrow> [] | Some names \<Rightarrow> names)\<rparr>])"
    by blast
  have "list_entries s2 None None =
              Inr [\<lparr>le_id = 1, le_when = Date 2024 1 1, le_description = ''paycheck'',
                     le_credit_account = ''salary'', le_debit_account = ''cash'',
                     le_amount = 1000, le_who = ''bob'', le_tags = []\<rparr>,
                   \<lparr>le_id = 2, le_when = Date 2024 1 5, le_description = ''correction'',
                     le_credit_account = ''cash'', le_debit_account = ''salary'',
                     le_amount = 200, le_who = ''alice'',
                     le_tags = [''groceries'', ''misc'']\<rparr>]"
    unfolding l2 by (simp add: f1 example_defs)
  with s1 s2 wf_alice_ledger show ?thesis by blast
qed
text \<open>
  C4. When no entry of the current user has the given id, \<open>delete_entry\<close> returns
  \<open>False\<close> and the store is unchanged. Otherwise it returns \<open>True\<close> and one new
  store in which the entry and all association rows of that entry are gone (both
  deletions are in the one result: the call is a single transaction), while tags,
  accounts and users are untouched; a later listing does not contain the id, and a
  second \<open>delete_entry\<close> with the same id returns \<open>False\<close>.
\<close>

theorem delete_entry_correct:
  "(\<not> (\<exists>e\<in>set (entries s). e_user_id e = current_uid s \<and> e_id e = entry_id) \<longrightarrow>
      delete_entry s entry_id = Inr (s, False)) \<and>
   ((\<exists>e\<in>set (entries s). e_user_id e = current_uid s \<and> e_id e = entry_id) \<longrightarrow>
      (\<exists>s'. delete_entry s entry_id = Inr (s', True) \<and>
            (\<forall>et\<in>set (entry_tags s'). et_entry_id et \<noteq> Some entry_id) \<and>
            (\<forall>e\<in>set (entries s'). e_id e \<noteq> entry_id) \<and>
            entries s' = filter (\<lambda>e. e_id e \<noteq> entry_id) (entries s) \<and>
            (wf_store s \<longrightarrow>
               entry_tags s' = filter (\<lambda>et. et_entry_id et \<noteq> Some entry_id) (entry_tags s)) \<and>
            tags s' = tags s \<and> accounts s' = accounts s \<and> users s' = users s \<and>
            current_uid s' = current_uid s \<and>
            (\<forall>dr cr rows. list_entries s' dr cr = Inr rows \<longrightarrow> entry_id \<notin> set (map le_id rows)) \<and>
            delete_entry s' entry_id = Inr (s', False)))"
proof (intro conjI impI)
  assume "\<not> (\<exists>e\<in>set (entries s). e_user_id e = current_uid s \<and> e_id e = entry_id)"
  then have "find (\<lambda>e. e_user_id e = current_uid s \<and> e_id e = entry_id) (entries s) = None"
    by (simp add: find_None_iff)
  then show "delete_entry s entry_id = Inr (s, False)"
    by (simp add: delete_entry_def)
next
  assume "\<exists>e\<in>set (entries s). e_user_id e = current_uid s \<and> e_id e = entry_id"
  then obtain entry where
    f: "find (\<lambda>e. e_user_id e = current_uid s \<and> e_id e = entry_id) (entries s) = Some entry"
    by (cases "find (\<lambda>e. e_user_id e = current_uid s \<and> e_id e = entry_id) (entries s)")
       (auto simp: find_None_iff)
  from find_SomeD [OF f] have id: "e_id entry = entry_id" by simp
  define doomed where
    "doomed = map et_id (filter (\<lambda>et. et_entry_id et = Some entry_id) (entry_tags s))"
  define s' where
    "s' = s\<lparr>entry_tags := filter (\<lambda>et. et_id et \<notin> set doomed) (entry_tags s),
            entries := filter (\<lambda>e. e_id e \<noteq> entry_id) (entries s)\<rparr>"
  have d: "delete_entry s entry_id = Inr (s', True)"
    by (simp add: delete_entry_def f id s'_def doomed_def)
  have ets: "\<forall>et\<in>set (entry_tags s'). et_entry_id et \<noteq> Some entry_id"
    by (auto simp: s'_def doomed_def)
  have es: "\<forall>e\<in>set (entries s'). e_id e \<noteq> entry_id"
    by (simp add: s'_def)
  have wf: "wf_store s \<longrightarrow>
       entry_tags s' = filter (\<lambda>et. et_entry_id et \<noteq> Some entry_id) (entry_tags s)"
  proof
    assume "wf_store s"
    then have dist: "distinct (map et_id (entry_tags s))" by (simp add: wf_store_def)
    have "\<And>et. et \<in> set (entry_tags s) \<Longrightarrow>
            (et_id et \<notin> set doomed) = (et_entry_id et \<noteq> Some entry_id)"
    proof -
      fix et assume et: "et \<in> set (entry_tags s)"
      have "et_id et \<in> set doomed \<longleftrightarrow>
              (\<exists>x\<in>set (entry_tags s). et_entry_id x = Some entry_id \<and> et_id x = et_id et)"
        unfolding doomed_def set_map set_filter image_iff by (metis (mono_tags, lifting) mem_Collect_eq)
      also have "\<dots> \<longleftrightarrow> et_entry_id et = Some entry_id"
        using dist et by (metis distinct_map inj_onD)
      finally show "(et_id et \<notin> set doomed) = (et_entry_id et \<noteq> Some entry_id)" by simp
    qed
    then show "entry_tags s' = filter (\<lambda>et. et_entry_id et \<noteq> Some entry_id) (entry_tags s)"
      by (simp add: s'_def cong: filter_cong)
  qed
  have listing: "\<forall>dr cr rows. list_entries s' dr cr = Inr rows \<longrightarrow> entry_id \<notin> set (map le_id rows)"
  proof (intro allI impI)
    fix dr cr rows assume "list_entries s' dr cr = Inr rows"
    then have "map le_id rows = map e_id (selected_entries s' dr cr)"
      unfolding list_entries_def by (rule entry_records_ids)
    moreover have "set (selected_entries s' dr cr) \<subseteq> set (entries s')"
      by (auto simp: selected_entries_def)
    ultimately show "entry_id \<notin> set (map le_id rows)"
      using es by auto
  qed
  have again: "delete_entry s' entry_id = Inr (s', False)"
  proof -
    have "find (\<lambda>e. e_user_id e = current_uid s' \<and> e_id e = entry_id) (entries s') = None"
      using es by (simp add: find_None_iff)
    then show ?thesis by (simp add: delete_entry_def)
  qed
  have rest: "entries s' = filter (\<lambda>e. e_id e \<noteq> entry_id) (entries s)"
    "tags s' = tags s" "accounts s' = accounts s" "users s' = users s"
    "current_uid s' = current_uid s"
    by (simp_all add: s'_def)
  from d ets es wf listing again rest
  show "\<exists>s'. delete_entry s entry_id = Inr (s', True) \<and>
            (\<forall>et\<in>set (entry_tags s'). et_entry_id et \<noteq> Some entry_id) \<and>
            (\<forall>e\<in>set (entries s'). e_id e \<noteq> entry_id) \<and>
            entries s' = filter (\<lambda>e. e_id e \<noteq> entry_id) (entries s) \<and>
            (wf_store s \<longrightarrow>
               entry_tags s' = filter (\<lambda>et. et_entry_id et \<noteq> Some entry_id) (entry_tags s)) \<and>
            tags s' = tags s \<and> accounts s' = accounts s \<and> users s' = users s \<and>
            current_uid s' = current_uid s \<and>
            (\<forall>dr cr rows. list_entries s' dr cr = Inr rows \<longrightarrow> entry_id \<notin> set (map le_id rows)) \<and>
            delete_entry s' entry_id = Inr (s', False)"
    by blast
qed

text \<open>
  In \<open>alice_paid\<close>, entry 2 carries two tags: deleting it removes the entry and both
  association rows and keeps both tag rows; there is no entry 7.
\<close>

theorem delete_entry_correct_witness:
  "(\<exists>e\<in>set (entries alice_paid). e_user_id e = current_uid alice_paid \<and> e_id e = 2) \<and>
   \<not> (\<exists>e\<in>set (entries alice_paid). e_user_id e = current_uid alice_paid \<and> e_id e = 7) \<and>
   wf_store alice_paid \<and>
   delete_entry alice_paid 7 = Inr (alice_paid, False) \<and>
   (\<exists>s'. delete_entry alice_paid 2 = Inr (s', True) \<and>
         entries s' = [paycheck_row] \<and> entry_tags s' = [] \<and>
         tags s' = [groceries_row, misc_row] \<and>
         (\<exists>rows. list_entries s' None None = Inr rows \<and> map le_id rows = [1]) \<and>
         delete_entry s' 2 = Inr (s', False))"
proof -
  have ex: "\<exists>e\<in>set (entries alice_paid). e_user_id e = current_uid alice_paid \<and> e_id e = 2"
    by (simp add: example_defs)
  have nex: "\<not> (\<exists>e\<in>set (entries alice_paid). e_user_id e = current_uid alice_paid \<and> e_id e = 7)"
    by (simp add: example_defs)
  from delete_entry_correct [of alice_paid 7] nex
  have no: "delete_entry alice_paid 7 = Inr (alice_paid, False)" by blast
  from delete_entry_correct [of alice_paid 2] ex wf_alice_paid
  obtain s' where s': "delete_entry alice_paid 2 = Inr (s', True)"
    "entries s' = filter (\<lambda>e. e_id e \<noteq> 2) (entries alice_paid)"
    "entry_tags s' = filter (\<lambda>et. et_entry_id et \<noteq> Some 2) (entry_tags alice_paid)"
    "tags s' = tags alice_paid" "accounts s' = accounts alice_paid"
    "current_uid s' = current_uid alice_paid"
    "\<forall>dr cr rows. list_entries s' dr cr = Inr rows \<longrightarrow> 2 \<notin> set (map le_id rows)"
    "delete_entry s' 2 = Inr (s', False)"
    by blast
  have f: "entries s' = [paycheck_row]" "entry_tags s' = []" "tags s' = [groceries_row, misc_row]"
    "accounts s' = [cash_row, salary_row]" "current_uid s' = Some 1"
    using s'(2-6) by (simp_all add: example_defs)
  have l: "list_entries s' None None =
      Inr [\<lparr>le_id = 1, le_when = Date 2024 1 1, le_description = ''paycheck'',
            le_credit_account = ''salary'', le_debit_account = ''cash'', le_amount = 1000,
            le_who = ''bob'', le_tags = []\<rparr>]"
    by (simp add: list_entries_def selected_entries_def name_filter_def entry_record_def
          account_name_of_def f example_defs)
  then have rows: "\<exists>rows. list_entries s' None None = Inr rows \<and> map le_id rows = [1]" by simp
  note facts = ex nex wf_alice_paid no s'(1,8) f(1-3) rows
  show ?thesis by (intro conjI exI [of _ s']) (rule facts)+
qed

text \<open>
  C5. With an identity established, \<open>create_account\<close> fails when an account with the
  same owner and name exists (the unique constraint on name and owner refuses the
  insert, raised as \<open>IntegrityError\<close>, which is what the specification calls
  DuplicateAccount); otherwise, in particular when the name is used by other users only,
  it inserts a new account owned by the current user.
\<close>

theorem create_account_duplicate:
  assumes "current_uid s = Some u"
  shows "((\<exists>a\<in>set (accounts s). a_user_id a = Some u \<and> a_name a = ai_name account) \<longrightarrow>
            create_account s account = Inl IntegrityError) \<and>
         (\<not> (\<exists>a\<in>set (accounts s). a_user_id a = Some u \<and> a_name a = ai_name account) \<longrightarrow>
            create_account s account =
              Inr (s\<lparr>accounts := accounts s @
                        [\<lparr>a_id = next_account_id s, a_user_id = Some u,
                          a_name = ai_name account, a_description = ai_description account,
                          a_type = ai_type account\<rparr>],
                      next_account_id := Suc (next_account_id s)\<rparr>))"
  using assms
  by (auto simp: create_account_def account_unique_violation_def list_ex_iff)

text \<open>alice creating a second "cash" is refused; bob creating "cash", which so far
  exists for alice only, succeeds.\<close>

theorem create_account_duplicate_witness:
  "current_uid alice_ledger = Some 1 \<and> current_uid bob_session = Some 2 \<and>
   cash_row \<in> set (accounts bob_session) \<and> a_name cash_row = ai_name cash_in \<and>
   create_account alice_ledger cash_in = Inl IntegrityError \<and>
   create_account bob_session cash_in =
     Inr (bob_session\<lparr>accounts := [cash_row, salary_row,
            \<lparr>a_id = 3, a_user_id = Some 2, a_name = ''cash'', a_description = ''wallet'',
              a_type = ''asset''\<rparr>], next_account_id := 4\<rparr>)"
proof -
  have a: "current_uid alice_ledger = Some 1" by (simp add: example_defs)
  have b: "current_uid bob_session = Some 2" by (simp add: example_defs)
  have dup: "\<exists>a\<in>set (accounts alice_ledger). a_user_id a = Some 1 \<and> a_name a = ai_name cash_in"
    by (simp add: example_defs)
  have other: "\<not> (\<exists>a\<in>set (accounts bob_session). a_user_id a = Some 2 \<and> a_name a = ai_name cash_in)"
    by (simp add: example_defs)
  from create_account_duplicate [OF a, of cash_in] dup
  have 1: "create_account alice_ledger cash_in = Inl IntegrityError" by blast
  from create_account_duplicate [OF b, of cash_in] other
  have 2: "create_account bob_session cash_in =
      Inr (bob_session\<lparr>accounts := accounts bob_session @
                        [\<lparr>a_id = next_account_id bob_session, a_user_id = Some 2,
                          a_name = ai_name cash_in, a_description = ai_description cash_in,
                          a_type = ai_type cash_in\<rparr>],
                      next_account_id := Suc (next_account_id bob_session)\<rparr>)" by blast
  show ?thesis
    using a b 1 by (simp add: 2) (simp add: example_defs)
qed

text \<open>
  C6. bob adds an entry tagged "groceries" while the only tag with that text belongs to
  alice (user 1): the lookup by text alone finds alice's tag, no tag is created for
  bob, and bob's association row links alice's tag. This holds for either value of
  \<open>fl\<close>.
\<close>

theorem add_entry_links_foreign_tag:
  "\<exists>s'. add_entry fl bob_ledger bob_shopping = Inr s' \<and>
         entry_tags s' =
           [\<lparr>et_id = 1, et_user_id = Some 2, et_entry_id = Some 1, et_tag_id = Some 1\<rparr>] \<and>
         tags s' = [\<lparr>t_id = 1, t_user_id = Some 1, t_tag = ''groceries''\<rparr>] \<and>
         current_uid s' = Some 2"
  by (simp add: add_entry_def Let_def example_defs)

text \<open>
  C7, as stated, fails: a filter whose debit account name is given as the empty string
  does not restrict the result (\<open>if dr:\<close> is false for it); the listing returns entries
  whose debit sides are "cash" and "salary", none of which is named by the empty
  string.
\<close>

theorem list_entries_empty_name_counterexample:
  "list_entries alice_paid (Some []) None =
     Inr [\<lparr>le_id = 1, le_when = Date 2024 1 1, le_description = ''paycheck'',
            le_credit_account = ''salary'', le_debit_account = ''cash'', le_amount = 1000,
            le_who = ''bob'', le_tags = []\<rparr>,
          \<lparr>le_id = 2, le_when = Date 2024 1 5, le_description = ''correction'',
            le_credit_account = ''cash'', le_debit_account = ''salary'', le_amount = 200,
            le_who = ''alice'', le_tags = [''groceries'', ''misc'']\<rparr>]"
  by (simp add: list_entries_def selected_entries_def name_filter_def entry_record_def
        account_name_of_def example_defs)

text \<open>
  C7, amended. Whenever \<open>list_entries\<close> returns, it returns exactly the entries
  owned by the current user, restricted to those whose debit side has the given debit
  name when a non-empty one is given, and to those whose credit side has the given
  credit name when a non-empty one is given, both together when both are given (an
  empty name counts as not given). In a well-formed store every returned row then shows
  the given names, and an entry whose debit side does not have the given debit name is
  not returned, whatever its credit side. The listing returns whenever the current
  user's entries have both account references and all tag references resolved.
\<close>

theorem list_entries_filters:
  "(list_entries s dr cr = Inr rows \<longrightarrow>
      map le_id rows =
        map e_id
          (filter (\<lambda>e. e_user_id e = current_uid s \<and>
                       (\<forall>d. dr = Some d \<and> d \<noteq> [] \<longrightarrow> account_has s (e_debit_account_id e) d) \<and>
                       (\<forall>c. cr = Some c \<and> c \<noteq> [] \<longrightarrow> account_has s (e_credit_account_id e) c))
             (entries s)) \<and>
      (wf_store s \<longrightarrow>
         (\<forall>r\<in>set rows. (\<forall>d. dr = Some d \<and> d \<noteq> [] \<longrightarrow> le_debit_account r = d) \<and>
                        (\<forall>c. cr = Some c \<and> c \<noteq> [] \<longrightarrow> le_credit_account r = c)) \<and>
         (\<forall>e\<in>set (entries s). \<forall>d. dr = Some d \<and> d \<noteq> [] \<and>
              \<not> account_has s (e_debit_account_id e) d \<longrightarrow> e_id e \<notin> set (map le_id rows)))) \<and>
   ((\<forall>e\<in>set (entries s). e_user_id e = current_uid s \<longrightarrow>
        (\<exists>a\<in>set (accounts s). e_credit_account_id e = Some (a_id a)) \<and>
        (\<exists>a\<in>set (accounts s). e_debit_account_id e = Some (a_id a)) \<and>
        (\<forall>et\<in>set (entry_tags s). et_entry_id et = Some (e_id e) \<longrightarrow>
           (\<exists>t\<in>set (tags s). et_tag_id et = Some (t_id t))))
      \<longrightarrow> (\<exists>rows'. list_entries s dr cr = Inr rows'))"
proof (intro conjI impI)
  assume l: "list_entries s dr cr = Inr rows"
  then show "map le_id rows =
        map e_id
          (filter (\<lambda>e. e_user_id e = current_uid s \<and>
                       (\<forall>d. dr = Some d \<and> d \<noteq> [] \<longrightarrow> account_has s (e_debit_account_id e) d) \<and>
                       (\<forall>c. cr = Some c \<and> c \<noteq> [] \<longrightarrow> account_has s (e_credit_account_id e) c))
             (entries s))"
    unfolding list_entries_def selected_entries_iff by (rule entry_records_ids)
next
  assume l: "list_entries s dr cr = Inr rows" and wf: "wf_store s"
  from wf have da: "distinct (map a_id (accounts s))" by (simp add: wf_store_def)
  show "\<forall>r\<in>set rows. (\<forall>d. dr = Some d \<and> d \<noteq> [] \<longrightarrow> le_debit_account r = d) \<and>
                        (\<forall>c. cr = Some c \<and> c \<noteq> [] \<longrightarrow> le_credit_account r = c)"
  proof
    fix r assume "r \<in> set rows"
    with l obtain e where e: "e \<in> set (selected_entries s dr cr)" "entry_record s e = Inr r"
      unfolding list_entries_def by (blast dest: entry_records_mem)
    note f = entry_record_fields [OF e(2)]
    from e(1) have sel:
      "\<forall>d. dr = Some d \<and> d \<noteq> [] \<longrightarrow> account_has s (e_debit_account_id e) d"
      "\<forall>c. cr = Some c \<and> c \<noteq> [] \<longrightarrow> account_has s (e_credit_account_id e) c"
      unfolding selected_entries_iff by simp_all
    show "(\<forall>d. dr = Some d \<and> d \<noteq> [] \<longrightarrow> le_debit_account r = d) \<and>
          (\<forall>c. cr = Some c \<and> c \<noteq> [] \<longrightarrow> le_credit_account r = c)"
    proof (intro conjI allI impI)
      fix d assume "dr = Some d \<and> d \<noteq> []"
      with sel(1) have "account_has s (e_debit_account_id e) d" by blast
      from account_name_of_has [OF da this] f show "le_debit_account r = d" by simp
    next
      fix c assume "cr = Some c \<and> c \<noteq> []"
      with sel(2) have "account_has s (e_credit_account_id e) c" by blast
      from account_name_of_has [OF da this] f show "le_credit_account r = c" by simp
    qed
  qed
next
  assume l: "list_entries s dr cr = Inr rows" and wf: "wf_store s"
  from wf have de: "distinct (map e_id (entries s))" by (simp add: wf_store_def)
  from l have ids: "map le_id rows = map e_id (selected_entries s dr cr)"
    unfolding list_entries_def by (rule entry_records_ids)
  show "\<forall>e\<in>set (entries s). \<forall>d. dr = Some d \<and> d \<noteq> [] \<and>
              \<not> account_has s (e_debit_account_id e) d \<longrightarrow> e_id e \<notin> set (map le_id rows)"
  proof (intro ballI allI impI)
    fix e d
    assume e: "e \<in> set (entries s)"
      and d: "dr = Some d \<and> d \<noteq> [] \<and> \<not> account_has s (e_debit_account_id e) d"
    show "e_id e \<notin> set (map le_id rows)"
    proof
      assume "e_id e \<in> set (map le_id rows)"
      with ids obtain e' where e': "e' \<in> set (selected_entries s dr cr)" "e_id e' = e_id e"
        by auto
      from e'(1) have m: "e' \<in> set (entries s)"
        and h: "\<forall>x. dr = Some x \<and> x \<noteq> [] \<longrightarrow> account_has s (e_debit_account_id e') x"
        unfolding selected_entries_iff by simp_all
      from de e m e'(2) have "e' = e" by (meson distinct_map inj_onD)
      with h d show False by blast
    qed
  qed
next
  assume r: "\<forall>e\<in>set (entries s). e_user_id e = current_uid s \<longrightarrow>
        (\<exists>a\<in>set (accounts s). e_credit_account_id e = Some (a_id a)) \<and>
        (\<exists>a\<in>set (accounts s). e_debit_account_id e = Some (a_id a)) \<and>
        (\<forall>et\<in>set (entry_tags s). et_entry_id et = Some (e_id e) \<longrightarrow>
           (\<exists>t\<in>set (tags s). et_tag_id et = Some (t_id t)))"
  have "\<exists>rows'. entry_records s (selected_entries s dr cr) = Inr rows'"
  proof (rule entry_records_total)
    fix e assume "e \<in> set (selected_entries s dr cr)"
    then have "e \<in> set (entries s)" "e_user_id e = current_uid s"
      by (simp_all add: selected_entries_def)
    with r show "\<exists>r. entry_record s e = Inr r"
      by (intro entry_record_total) blast+
  qed
  then show "\<exists>rows'. list_entries s dr cr = Inr rows'" by (simp add: list_entries_def)
qed

text \<open>
  In \<open>alice_paid\<close> the debit filter "cash" returns the paycheck (entry 1) only, not
  the correction, which has "cash" on its credit side; debit "salary" together with
  credit "cash" returns the correction only.
\<close>

theorem list_entries_filters_witness:
  "wf_store alice_paid \<and>
   (\<exists>rows. list_entries alice_paid (Some ''cash'') None = Inr rows \<and>
           map le_id rows = [1] \<and>
           (\<forall>r\<in>set rows. le_debit_account r = ''cash'') \<and>
           e_id correction_row \<notin> set (map le_id rows)) \<and>
   (\<exists>rows. list_entries alice_paid (Some ''salary'') (Some ''cash'') = Inr rows \<and>
           map le_id rows = [2])"
proof -
  have res: "\<forall>e\<in>set (entries alice_paid). e_user_id e = current_uid alice_paid \<longrightarrow>
        (\<exists>a\<in>set (accounts alice_paid). e_credit_account_id e = Some (a_id a)) \<and>
        (\<exists>a\<in>set (accounts alice_paid). e_debit_account_id e = Some (a_id a)) \<and>
        (\<forall>et\<in>set (entry_tags alice_paid). et_entry_id et = Some (e_id e) \<longrightarrow>
           (\<exists>t\<in>set (tags alice_paid). et_tag_id et = Some (t_id t)))"
    by (simp add: example_defs)
  have sel1: "map e_id
          (filter (\<lambda>e. e_user_id e = current_uid alice_paid \<and>
                       (\<forall>d. Some ''cash'' = Some d \<and> d \<noteq> [] \<longrightarrow>
                          account_has alice_paid (e_debit_account_id e) d) \<and>
                       (\<forall>c. None = Some c \<and> c \<noteq> [] \<longrightarrow>
                          account_has alice_paid (e_credit_account_id e) c))
             (entries alice_paid)) = [1]"
    by (simp add: account_has_def example_defs)
  have sel2: "map e_id
          (filter (\<lambda>e. e_user_id e = current_uid alice_paid \<and>
                       (\<forall>d. Some ''salary'' = Some d \<and> d \<noteq> [] \<longrightarrow>
                          account_has alice_paid (e_debit_account_id e) d) \<and>
                       (\<forall>c. Some ''cash'' = Some c \<and> c \<noteq> [] \<longrightarrow>
                          account_has alice_paid (e_credit_account_id e) c))
             (entries alice_paid)) = [2]"
    by (simp add: account_has_def example_defs)
  have nd: "correction_row \<in> set (entries alice_paid)"
    "\<not> account_has alice_paid (e_debit_account_id correction_row) ''cash''"
    by (simp_all add: account_has_def example_defs)
  from list_entries_filters [of alice_paid "Some ''cash''" None "[]"] res
  obtain rows where l: "list_entries alice_paid (Some ''cash'') None = Inr rows" by blast
  from list_entries_filters [of alice_paid "Some ''cash''" None rows] l wf_alice_paid
  have a: "map le_id rows =
        map e_id
          (filter (\<lambda>e. e_user_id e = current_uid alice_paid \<and>
                       (\<forall>d. Some ''cash'' = Some d \<and> d \<noteq> [] \<longrightarrow>
                          account_has alice_paid (e_debit_account_id e) d) \<and>
                       (\<forall>c. None = Some c \<and> c \<noteq> [] \<longrightarrow>
                          account_has alice_paid (e_credit_account_id e) c))
             (entries alice_paid))"
    and b: "\<forall>r\<in>set rows. (\<forall>d. Some ''cash'' = Some d \<and> d \<noteq> [] \<longrightarrow> le_debit_account r = d) \<and>
                        (\<forall>c. None = Some c \<and> c \<noteq> [] \<longrightarrow> le_credit_account r = c)"
    and c: "\<forall>e\<in>set (entries alice_paid). \<forall>d. Some ''cash'' = Some d \<and> d \<noteq> [] \<and>
              \<not> account_has alice_paid (e_debit_account_id e) d \<longrightarrow>
              e_id e \<notin> set (map le_id rows)"
    by blast+
  from b have b': "\<forall>r\<in>set rows. le_debit_account r = ''cash''" by simp
  from c nd have c': "e_id correction_row \<notin> set (map le_id rows)" by simp
  from a sel1 have a': "map le_id rows = [1]" by (simp only:)
  have first: "\<exists>rows. list_entries alice_paid (Some ''cash'') None = Inr rows \<and>
           map le_id rows = [1] \<and>
           (\<forall>r\<in>set rows. le_debit_account r = ''cash'') \<and>
           e_id correction_row \<notin> set (map le_id rows)"
    using l a' b' c' by (intro exI [of _ rows] conjI)
  from list_entries_filters [of alice_paid "Some ''salary''" "Some ''cash''" "[]"] res
  obtain rows2 where l2: "list_entries alice_paid (Some ''salary'') (Some ''cash'') = Inr rows2"
    by blast
  from list_entries_filters [of alice_paid "Some ''salary''" "Some ''cash''" rows2] l2 sel2
  have "map le_id rows2 = [2]" by (simp only:)
  with l2 have second: "\<exists>rows. list_entries alice_paid (Some ''salary'') (Some ''cash'') = Inr rows \<and>
           map le_id rows = [2]"
    by (intro exI [of _ rows2] conjI)
  from wf_alice_paid first second show ?thesis by (intro conjI)
qed

text \<open>
  C8. \<open>set_current_user\<close> with an email that no user has: the lookup yields
  \<open>None\<close> and the unguarded \<open>user.id\<close> raises \<open>AttributeError\<close>, the same error
  a dangling reference gives in \<open>list_entries\<close>; no error of its own is raised for
  the unknown user (\<open>get_user\<close> guards the same lookup with \<open>if not user\<close>). The
  general facts are \<open>set_current_user_unknown\<close> and \<open>set_current_user_known\<close>.
\<close>

theorem set_current_user_unknown_email:
  "set_current_user alice_ledger ''nobody@example.com'' = Inl AttributeError"
  by (simp add: set_current_user_def example_defs)

text \<open>
  C9, as stated, fails: on the store without identity \<open>create_account\<close> does not
  fail but inserts an account whose owner is empty.
\<close>

theorem create_account_without_identity:
  "current_uid init_store = None \<and>
   create_account init_store cash_in =
     Inr (init_store\<lparr>accounts := [\<lparr>a_id = 1, a_user_id = None, a_name = ''cash'',
                                     a_description = ''wallet'', a_type = ''asset''\<rparr>],
                      next_account_id := 2\<rparr>)"
  by (simp add: create_account_def account_unique_violation_def init_store_def cash_in_def)

text \<open>
  C9, amended. None of the operations checks that an identity has been established.
  With \<open>current_uid = None\<close> they run with the empty owner: \<open>create_account\<close>,
  \<open>create_tag\<close> and \<open>add_entry\<close> succeed and write rows whose owner is empty;
  \<open>delete_entry\<close>, \<open>list_entries\<close>, \<open>list_accounts\<close> and
  \<open>get_account_balance\<close> select exactly the rows whose owner is empty.
\<close>

theorem operations_without_identity:
  assumes "current_uid s = None"
  shows "create_account s account =
           Inr (s\<lparr>accounts := accounts s @
                     [\<lparr>a_id = next_account_id s, a_user_id = None,
                       a_name = ai_name account, a_description = ai_description account,
                       a_type = ai_type account\<rparr>],
                   next_account_id := Suc (next_account_id s)\<rparr>) \<and>
         create_tag s tag =
           Inr (s\<lparr>tags := tags s @ [\<lparr>t_id = next_tag_id s, t_user_id = None, t_tag = tag\<rparr>],
                   next_tag_id := Suc (next_tag_id s)\<rparr>) \<and>
         (\<exists>s' row. add_entry fl s entry = Inr s' \<and> entries s' = entries s @ [row] \<and>
                   e_user_id row = None \<and> e_id row = next_entry_id s) \<and>
         (\<exists>s' b. delete_entry s entry_id = Inr (s', b) \<and>
                 (b \<longleftrightarrow> (\<exists>e\<in>set (entries s). e_user_id e = None \<and> e_id e = entry_id))) \<and>
         list_entries s dr cr =
           entry_records s
             (filter (\<lambda>e. e_user_id e = None \<and> name_filter s dr (e_debit_account_id e) \<and>
                           name_filter s cr (e_credit_account_id e)) (entries s)) \<and>
         list_accounts s ty =
           Inr (map (\<lambda>a. \<lparr>la_name = a_name a, la_description = a_description a,
                           la_type = a_type a\<rparr>)
                  (filter (\<lambda>a. a_user_id a = None \<and>
                                (case ty of None \<Rightarrow> True
                                 | Some t \<Rightarrow> if t = [] then True else a_type a = t))
                     (accounts s))) \<and>
         get_account_balance s nm =
           Inr (decimal_round
                 (sum_list (map e_amount
                    (filter (\<lambda>e. e_user_id e = None \<and> account_has s (e_debit_account_id e) nm)
                       (entries s)))
                  - sum_list (map e_amount
                    (filter (\<lambda>e. e_user_id e = None \<and> account_has s (e_credit_account_id e) nm)
                       (entries s)))))"
proof (intro conjI)
  show "create_account s account =
           Inr (s\<lparr>accounts := accounts s @
                     [\<lparr>a_id = next_account_id s, a_user_id = None,
                       a_name = ai_name account, a_description = ai_description account,
                       a_type = ai_type account\<rparr>],
                   next_account_id := Suc (next_account_id s)\<rparr>)"
    using assms by (simp add: create_account_def account_unique_violation_def)
  show "create_tag s tag =
           Inr (s\<lparr>tags := tags s @ [\<lparr>t_id = next_tag_id s, t_user_id = None, t_tag = tag\<rparr>],
                   next_tag_id := Suc (next_tag_id s)\<rparr>)"
    using assms by (simp add: create_tag_def)
  show "\<exists>s' row. add_entry fl s entry = Inr s' \<and> entries s' = entries s @ [row] \<and>
                   e_user_id row = None \<and> e_id row = next_entry_id s"
  proof -
    from add_entry_total obtain s' where s': "add_entry fl s entry = Inr s'" by blast
    from add_entry_entries [OF s'] assms s' show ?thesis by simp
  qed
  show "\<exists>s' b. delete_entry s entry_id = Inr (s', b) \<and>
                 (b \<longleftrightarrow> (\<exists>e\<in>set (entries s). e_user_id e = None \<and> e_id e = entry_id))"
  proof (cases "find (\<lambda>e. e_user_id e = current_uid s \<and> e_id e = entry_id) (entries s)")
    case None
    then have "\<not> (\<exists>e\<in>set (entries s). e_user_id e = None \<and> e_id e = entry_id)"
      using assms by (auto simp: find_None_iff)
    moreover from None have "delete_entry s entry_id = Inr (s, False)"
      by (simp add: delete_entry_def)
    ultimately show ?thesis by blast
  next
    case (Some e)
    from find_SomeD [OF Some] assms
    have "\<exists>e\<in>set (entries s). e_user_id e = None \<and> e_id e = entry_id" by auto
    moreover from Some have "\<exists>s'. delete_entry s entry_id = Inr (s', True)"
      by (simp add: delete_entry_def Let_def)
    ultimately show ?thesis by blast
  qed
  show "list_entries s dr cr =
           entry_records s
             (filter (\<lambda>e. e_user_id e = None \<and> name_filter s dr (e_debit_account_id e) \<and>
                           name_filter s cr (e_credit_account_id e)) (entries s))"
    using assms by (simp add: list_entries_def selected_entries_def)
  show "list_accounts s ty =
           Inr (map (\<lambda>a. \<lparr>la_name = a_name a, la_description = a_description a,
                           la_type = a_type a\<rparr>)
                  (filter (\<lambda>a. a_user_id a = None \<and>
                                (case ty of None \<Rightarrow> True
                                 | Some t \<Rightarrow> if t = [] then True else a_type a = t))
                     (accounts s)))"
    using assms by (simp add: list_accounts_def)
  show "get_account_balance s nm =
           Inr (decimal_round
                 (sum_list (map e_amount
                    (filter (\<lambda>e. e_user_id e = None \<and> account_has s (e_debit_account_id e) nm)
                       (entries s)))
                  - sum_list (map e_amount
                    (filter (\<lambda>e. e_user_id e = None \<and> account_has s (e_credit_account_id e) nm)
                       (entries s)))))"
    using assms by (simp add: get_account_balance_sums)
qed

text \<open>
  A fresh \<open>Database\<close> object over alice's populated store: a second account "cash"
  is accepted (with empty owner), and nothing of alice's is listed, summed or deleted.
\<close>

theorem operations_without_identity_witness:
  "current_uid (alice_paid\<lparr>current_uid := None\<rparr>) = None \<and>
   create_account (alice_paid\<lparr>current_uid := None\<rparr>) cash_in =
     Inr (alice_paid\<lparr>current_uid := None,
            accounts := [cash_row, salary_row,
              \<lparr>a_id = 3, a_user_id = None, a_name = ''cash'', a_description = ''wallet'',
                a_type = ''asset''\<rparr>],
            next_account_id := 4\<rparr>) \<and>
   list_accounts (alice_paid\<lparr>current_uid := None\<rparr>) None = Inr [] \<and>
   list_entries (alice_paid\<lparr>current_uid := None\<rparr>) None None = Inr [] \<and>
   get_account_balance (alice_paid\<lparr>current_uid := None\<rparr>) ''cash'' = Inr 0 \<and>
   (\<exists>s'. delete_entry (alice_paid\<lparr>current_uid := None\<rparr>) 1 = Inr (s', False))"
proof -
  let ?s = "alice_paid\<lparr>current_uid := None\<rparr>"
  have h: "current_uid ?s = None" by simp
  note t = operations_without_identity [OF h, where account = cash_in and tag = "''misc''"
      and fl = True and entry = paycheck and entry_id = 1 and dr = None and cr = None
      and ty = None and nm = "''cash''"]
  have own: "\<And>P. filter (\<lambda>e. e_user_id e = None \<and> P e) (entries ?s) = []"
    "\<And>P. filter (\<lambda>a. a_user_id a = None \<and> P a) (accounts ?s) = []"
    by (simp_all add: example_defs)
  have 1: "create_account ?s cash_in =
     Inr (alice_paid\<lparr>current_uid := None,
            accounts := [cash_row, salary_row,
              \<lparr>a_id = 3, a_user_id = None, a_name = ''cash'', a_description = ''wallet'',
                a_type = ''asset''\<rparr>],
            next_account_id := 4\<rparr>)"
    using t by (simp add: example_defs)
  have 2: "list_accounts ?s None = Inr []"
    using t by (simp only: own) simp
  have 3: "list_entries ?s None None = Inr []"
    using t by (simp only: own) simp
  have 4: "get_account_balance ?s ''cash'' = Inr 0"
    using t by (simp only: own) simp
  have no: "\<not> (\<exists>e\<in>set (entries ?s). e_user_id e = None \<and> e_id e = 1)"
    by (simp add: example_defs)
  from t [THEN conjunct2, THEN conjunct2, THEN conjunct2, THEN conjunct1]
  obtain s' b where d: "delete_entry ?s 1 = Inr (s', b)"
    "b \<longleftrightarrow> (\<exists>e\<in>set (entries ?s). e_user_id e = None \<and> e_id e = 1)"
    by (elim exE conjE)
  from d(2) no have "b = False" by (simp only:)
  with d(1) have 5: "\<exists>s'. delete_entry ?s 1 = Inr (s', False)"
    by (intro exI [of _ s']) (simp only:)
  note facts = h 1 2 3 4 5
  show ?thesis by (intro conjI) (rule facts)+
qed

text \<open>
  C10. \<open>add_entry\<close> accepts an entry whose credit and debit account names are the
  same: the stored row has the same reference on both sides, and no balance changes,
  since when the name resolves the amount is added once to the debit sum and once to
  the credit sum of that account.
\<close>

theorem same_account_entry_nets_zero:
  assumes "ei_credit_account entry = ei_debit_account entry"
  shows "\<exists>s' row. add_entry fl s entry = Inr s' \<and>
           entries s' = entries s @ [row] \<and>
           e_credit_account_id row = e_debit_account_id row \<and>
           e_amount row = ei_amount entry \<and>
           (\<forall>nm. get_account_balance s' nm = get_account_balance s nm) \<and>
           ((\<exists>a\<in>set (accounts s). a_name a = ei_debit_account entry) \<longrightarrow>
              sum_list (map e_amount
                (filter (\<lambda>e. e_user_id e = current_uid s' \<and>
                              account_has s' (e_debit_account_id e) (ei_debit_account entry))
                   (entries s'))) =
              sum_list (map e_amount
                (filter (\<lambda>e. e_user_id e = current_uid s \<and>
                              account_has s (e_debit_account_id e) (ei_debit_account entry))
                   (entries s))) + ei_amount entry \<and>
              sum_list (map e_amount
                (filter (\<lambda>e. e_user_id e = current_uid s' \<and>
                              account_has s' (e_credit_account_id e) (ei_debit_account entry))
                   (entries s'))) =
              sum_list (map e_amount
                (filter (\<lambda>e. e_user_id e = current_uid s \<and>
                              account_has s (e_credit_account_id e) (ei_debit_account entry))
                   (entries s))) + ei_amount entry)"
proof -
  from add_entry_total obtain s' where s': "add_entry fl s entry = Inr s'" by blast
  note en = add_entry_entries [OF s']
  note un = add_entry_unchanged [OF s']
  let ?row = "\<lparr>e_id = next_entry_id s, e_user_id = current_uid s,
         e_who = ei_who entry, e_when = ei_when entry,
         e_credit_account_id =
           map_option a_id (find (\<lambda>a. a_name a = ei_credit_account entry) (accounts s)),
         e_debit_account_id =
           map_option a_id (find (\<lambda>a. a_name a = ei_debit_account entry) (accounts s)),
         e_amount = ei_amount entry, e_description = ei_description entry\<rparr>"
  have bal: "\<forall>nm. get_account_balance s' nm = get_account_balance s nm"
  proof
    fix nm
    from balance_sums_add_entry [OF s', of nm] assms
    show "get_account_balance s' nm = get_account_balance s nm"
      by (simp add: get_account_balance_sums)
  qed
  have sums: "(\<exists>a\<in>set (accounts s). a_name a = ei_debit_account entry) \<longrightarrow>
              sum_list (map e_amount
                (filter (\<lambda>e. e_user_id e = current_uid s' \<and>
                              account_has s' (e_debit_account_id e) (ei_debit_account entry))
                   (entries s'))) =
              sum_list (map e_amount
                (filter (\<lambda>e. e_user_id e = current_uid s \<and>
                              account_has s (e_debit_account_id e) (ei_debit_account entry))
                   (entries s))) + ei_amount entry \<and>
              sum_list (map e_amount
                (filter (\<lambda>e. e_user_id e = current_uid s' \<and>
                              account_has s' (e_credit_account_id e) (ei_debit_account entry))
                   (entries s'))) =
              sum_list (map e_amount
                (filter (\<lambda>e. e_user_id e = current_uid s \<and>
                              account_has s (e_credit_account_id e) (ei_debit_account entry))
                   (entries s))) + ei_amount entry"
  proof
    assume "\<exists>a\<in>set (accounts s). a_name a = ei_debit_account entry"
    then obtain a where a: "find (\<lambda>a. a_name a = ei_debit_account entry) (accounts s) = Some a"
      by (cases "find (\<lambda>a. a_name a = ei_debit_account entry) (accounts s)")
         (auto simp: find_None_iff)
    from account_has_found_self [OF a] en un assms a
    show "sum_list (map e_amount
                (filter (\<lambda>e. e_user_id e = current_uid s' \<and>
                              account_has s' (e_debit_account_id e) (ei_debit_account entry))
                   (entries s'))) =
              sum_list (map e_amount
                (filter (\<lambda>e. e_user_id e = current_uid s \<and>
                              account_has s (e_debit_account_id e) (ei_debit_account entry))
                   (entries s))) + ei_amount entry \<and>
              sum_list (map e_amount
                (filter (\<lambda>e. e_user_id e = current_uid s' \<and>
                              account_has s' (e_credit_account_id e) (ei_debit_account entry))
                   (entries s'))) =
              sum_list (map e_amount
                (filter (\<lambda>e. e_user_id e = current_uid s \<and>
                              account_has s (e_credit_account_id e) (ei_debit_account entry))
                   (entries s))) + ei_amount entry"
      by (simp add: account_has_add_entry [OF s'])
  qed
  have "entries s' = entries s @ [?row] \<and> e_credit_account_id ?row = e_debit_account_id ?row \<and>
        e_amount ?row = ei_amount entry"
    using en assms by simp
  with s' bal sums show ?thesis by blast
qed

text \<open>A transfer of 50 from "cash" to "cash" leaves the balance of "cash" at 800.\<close>

theorem same_account_entry_nets_zero_witness:
  "ei_credit_account self_transfer = ei_debit_account self_transfer \<and>
   get_account_balance alice_paid ''cash'' = Inr 800 \<and>
   (\<exists>s'. add_entry True alice_paid self_transfer = Inr s' \<and>
         length (entries s') = 3 \<and>
         get_account_balance s' ''cash'' = Inr 800)"
proof -
  have h: "ei_credit_account self_transfer = ei_debit_account self_transfer"
    by (simp add: self_transfer_def)
  have b: "get_account_balance alice_paid ''cash'' = Inr 800"
    by (simp add: get_account_balance_sums account_has_def example_defs)
  from same_account_entry_nets_zero [OF h, of True alice_paid]
  obtain s' row where "add_entry True alice_paid self_transfer = Inr s'"
    "entries s' = entries alice_paid @ [row]"
    "\<forall>nm. get_account_balance s' nm = get_account_balance alice_paid nm"
    by blast
  then have "add_entry True alice_paid self_transfer = Inr s' \<and> length (entries s') = 3 \<and>
         get_account_balance s' ''cash'' = Inr 800"
    using b by (simp add: alice_paid_def)
  with h b show ?thesis by blast
qed

end
